theory Spec2Isabelle
  imports Main "HOL-Library.Word"
begin

section \<open>Strings of the JavaScript runtime\<close>

text \<open>
  A JavaScript string is a sequence of 16-bit UTF-16 code units. Indexing
  (\<open>template[i]\<close>), \<open>includes\<close>, \<open>trim\<close>, \<open>split\<close> and regular expressions without
  the \<open>u\<close> flag work on code units; \<open>Array.from\<close> and regular expressions with the
  \<open>u\<close> flag work on code points.
\<close>

type_synonym jschar = "16 word"
type_synonym jsstring = "jschar list"

text \<open>An ASCII literal as a JavaScript string.\<close>

definition js :: "string \<Rightarrow> jsstring" where
  "js s = map (\<lambda>c. of_nat (of_char c)) s"

text \<open>The characters with a syntactic role, as code units or as code points.\<close>

abbreviation (input) LF :: "'a::numeral" where "LF \<equiv> 0x0A"
abbreviation (input) CR :: "'a::numeral" where "CR \<equiv> 0x0D"
abbreviation (input) DOLLAR :: "'a::numeral" where "DOLLAR \<equiv> 0x24"
abbreviation (input) DASH :: "'a::numeral" where "DASH \<equiv> 0x2D"
abbreviation (input) SLASH :: "'a::numeral" where "SLASH \<equiv> 0x2F"
abbreviation (input) QUESTION :: "'a::numeral" where "QUESTION \<equiv> 0x3F"
abbreviation (input) LBRACKET :: "'a::numeral" where "LBRACKET \<equiv> 0x5B"
abbreviation (input) BACKSLASH :: "'a::numeral" where "BACKSLASH \<equiv> 0x5C"
abbreviation (input) RBRACKET :: "'a::numeral" where "RBRACKET \<equiv> 0x5D"
abbreviation (input) CARET :: "'a::numeral" where "CARET \<equiv> 0x5E"
abbreviation (input) LOWER_U :: "'a::numeral" where "LOWER_U \<equiv> 0x75"

text \<open>
  The \<open>WhiteSpace\<close> and \<open>LineTerminator\<close> code units of ECMAScript: the set that
  \<open>String.prototype.trim\<close> strips and that \<open>\s\<close> matches.
\<close>

definition isWhiteSpace :: "jschar \<Rightarrow> bool" where
  "isWhiteSpace c \<longleftrightarrow>
     c \<in> {0x09, 0x0A, 0x0B, 0x0C, 0x0D, 0x20, 0xA0, 0x1680, 0x2028, 0x2029,
          0x202F, 0x205F, 0x3000, 0xFEFF}
     \<or> (0x2000 \<le> c \<and> c \<le> 0x200A)"

definition trim :: "jsstring \<Rightarrow> jsstring" where
  "trim s = rev (dropWhile isWhiteSpace (rev (dropWhile isWhiteSpace s)))"

text \<open>\<open>word.startsWith(l)\<close> and \<open>word.includes(l)\<close>: \<open>l\<close> occurs as a contiguous run.\<close>

fun startsWith :: "jsstring \<Rightarrow> jsstring \<Rightarrow> bool" where
  "startsWith w [] = True"
| "startsWith [] (c # l) = False"
| "startsWith (d # w) (c # l) = (d = c \<and> startsWith w l)"

fun str_includes :: "jsstring \<Rightarrow> jsstring \<Rightarrow> bool" where
  "str_includes [] l = (l = [])"
| "str_includes (d # w) l = (startsWith (d # w) l \<or> str_includes w l)"

text \<open>
  The code points of a string (what a \<open>u\<close>-flag regular expression and the string
  iterator see): a lead surrogate followed by a trail surrogate is one code point,
  any other code unit, a lone surrogate too, is a code point of its own.
\<close>

definition isLeadSurrogate :: "jschar \<Rightarrow> bool" where
  "isLeadSurrogate c \<longleftrightarrow> 0xD800 \<le> c \<and> c \<le> 0xDBFF"

definition isTrailSurrogate :: "jschar \<Rightarrow> bool" where
  "isTrailSurrogate c \<longleftrightarrow> 0xDC00 \<le> c \<and> c \<le> 0xDFFF"

fun codePoints :: "jsstring \<Rightarrow> nat list" where
  "codePoints [] = []"
| "codePoints [c] = [unat c]"
| "codePoints (c # d # s) =
     (if isLeadSurrogate c \<and> isTrailSurrogate d
      then (0x10000 + (unat c - 0xD800) * 0x400 + (unat d - 0xDC00)) # codePoints s
      else unat c # codePoints (d # s))"

definition utf16 :: "nat \<Rightarrow> jsstring" where
  "utf16 cp =
     (if cp < 0x10000 then [of_nat cp]
      else [of_nat (0xD800 + (cp - 0x10000) div 0x400),
            of_nat (0xDC00 + (cp - 0x10000) mod 0x400)])"

definition fromCodePoints :: "nat list \<Rightarrow> jsstring" where
  "fromCodePoints cps = concat (map utf16 cps)"

section \<open>The host: what the runtime and the network supply\<close>

text \<open>
  The program calls into the browser: \<open>fetch\<close>, Unicode normalisation, the Unicode
  property \<open>\p{M}\<close>, the collation behind \<open>localeCompare\<close> and the regular expression
  engine. They are parameters of the model; the part of the regular expression
  syntax that \<open>templateToRegex\<close> itself emits is modelled below, the engine of the host
  is asked only about patterns outside that part. The last field is about the number
  of arguments that the engine accepts in one call (see \<open>maxArguments\<close> below).
\<close>

datatype response = NetworkFailure | Response nat jsstring

record host =
  fetch :: "jsstring \<Rightarrow> response"
  normalizeNFKD :: "jsstring \<Rightarrow> jsstring"
  isMark :: "nat \<Rightarrow> bool"
  localeCompare :: "jsstring \<Rightarrow> jsstring \<Rightarrow> int"
  nativeRegExp :: "jsstring \<Rightarrow> (jsstring \<Rightarrow> bool) option"
  moreArguments :: nat

text \<open>
  The exceptions of the program: the three \<open>Error\<close>s that \<open>loadWordlist\<close> throws (two
  carry the HTTP status in their message), the rejection of \<open>fetch\<close> on a network
  failure, the \<open>SyntaxError\<close> of the \<open>RegExp\<close> constructor, and the \<open>RangeError\<close> of a
  call with more arguments than the engine accepts.
\<close>

datatype error =
    DefaultSourceFailed nat
  | UrlFailed nat
  | NoSourceChosen
  | FetchRejected
  | SyntaxError
  | RangeError

section \<open>stripNiqqud\<close>

definition stripNiqqud :: "host \<Rightarrow> jsstring \<Rightarrow> jsstring" where
  "stripNiqqud h s =
     fromCodePoints (filter (\<lambda>ch. \<not> isMark h ch) (codePoints (normalizeNFKD h s)))"

section \<open>Regular expressions with the \<open>u\<close> flag\<close>

text \<open>
  The patterns that \<open>templateToRegex\<close> builds are sequences of assertions and of
  atoms that consume one code point: a character, an escaped syntax character or a
  class. \<open>Chars negated ranges\<close> is such an atom.
\<close>

datatype rxTerm = AssertStart | AssertEnd | Chars bool "(nat \<times> nat) list"

datatype regexp = Terms "rxTerm list" | Native "jsstring \<Rightarrow> bool"

text \<open>
  Parsing gives the parsed value, or finds the pattern malformed (a \<open>SyntaxError\<close>),
  or finds it outside the syntax modelled here.
\<close>

datatype 'a parsed = Parsed 'a | Malformed | Unmodelled

definition isSyntaxCharacter :: "nat \<Rightarrow> bool" where
  "isSyntaxCharacter c \<longleftrightarrow>
     c \<in> {0x5E, 0x24, 0x5C, 0x2E, 0x2A, 0x2B, 0x3F, 0x28, 0x29, 0x5B, 0x5D, 0x7B, 0x7D, 0x7C}"

definition hexValue :: "nat \<Rightarrow> nat option" where
  "hexValue c =
     (if 0x30 \<le> c \<and> c \<le> 0x39 then Some (c - 0x30)
      else if 0x41 \<le> c \<and> c \<le> 0x46 then Some (c - 0x41 + 10)
      else if 0x61 \<le> c \<and> c \<le> 0x66 then Some (c - 0x61 + 10)
      else None)"

definition hex4 :: "nat \<Rightarrow> nat \<Rightarrow> nat \<Rightarrow> nat \<Rightarrow> nat option" where
  "hex4 a b c d =
     (case (hexValue a, hexValue b, hexValue c, hexValue d) of
        (Some x, Some y, Some z, Some w) \<Rightarrow> Some (((x * 16 + y) * 16 + z) * 16 + w)
      | _ \<Rightarrow> None)"

text \<open>
  The text of a class, from after its \<open>[\<close> to its closing \<open>]\<close>: the first \<open>]\<close> that no
  backslash escapes. \<open>None\<close> when the pattern ends first.
\<close>

fun classBody :: "nat list \<Rightarrow> nat list \<Rightarrow> (nat list \<times> nat list) option" where
  "classBody [] acc = None"
| "classBody (c # cs) acc =
     (if c = RBRACKET then Some (acc, cs)
      else if c = BACKSLASH then
        (case cs of [] \<Rightarrow> None | d # ds \<Rightarrow> classBody ds (acc @ [c, d]))
      else classBody cs (acc @ [c]))"

text \<open>
  The atoms of a class body, each with a flag that tells an unescaped \<open>-\<close>. Modelled
  are plain characters, \<open>\uHHHH\<close> for a code point that is no surrogate, and the
  identity escapes of the \<open>u\<close> mode (a syntax character, \<open>/\<close>, and in a class \<open>-\<close>).
\<close>

fun classAtoms :: "nat list \<Rightarrow> (nat \<times> bool) list parsed" where
  "classAtoms [] = Parsed []"
| "classAtoms (c # cs) =
     (if c \<noteq> BACKSLASH then
        (case classAtoms cs of Parsed as \<Rightarrow> Parsed ((c, c = DASH) # as) | r \<Rightarrow> r)
      else
        (case cs of
           [] \<Rightarrow> Malformed
         | e # es \<Rightarrow>
             if isSyntaxCharacter e \<or> e = SLASH \<or> e = DASH then
               (case classAtoms es of Parsed as \<Rightarrow> Parsed ((e, False) # as) | r \<Rightarrow> r)
             else if e = LOWER_U then
               (case es of
                  x1 # x2 # x3 # x4 # rest \<Rightarrow>
                    (case hex4 x1 x2 x3 x4 of
                       Some v \<Rightarrow>
                         if 0xD800 \<le> v \<and> v \<le> 0xDFFF then Unmodelled
                         else (case classAtoms rest of
                                 Parsed as \<Rightarrow> Parsed ((v, False) # as) | r \<Rightarrow> r)
                     | None \<Rightarrow> Unmodelled)
                | _ \<Rightarrow> Unmodelled)
             else Unmodelled))"

text \<open>
  The ranges of a class: \<open>a-b\<close> with an unescaped dash between two atoms is the range
  from \<open>a\<close> to \<open>b\<close>, a \<open>SyntaxError\<close> when \<open>a > b\<close>; every other atom stands for itself.
\<close>

fun classRanges :: "(nat \<times> bool) list \<Rightarrow> (nat \<times> nat) list parsed" where
  "classRanges ((a, fa) # (d, fd) # (b, fb) # as) =
     (if fd then
        (if a > b then Malformed
         else (case classRanges as of Parsed rs \<Rightarrow> Parsed ((a, b) # rs) | r \<Rightarrow> r))
      else (case classRanges ((d, fd) # (b, fb) # as) of
              Parsed rs \<Rightarrow> Parsed ((a, a) # rs) | r \<Rightarrow> r))"
| "classRanges ((a, fa) # as) =
     (case classRanges as of Parsed rs \<Rightarrow> Parsed ((a, a) # rs) | r \<Rightarrow> r)"
| "classRanges [] = Parsed []"

definition parseClass :: "nat list \<Rightarrow> rxTerm parsed" where
  "parseClass body =
     (let negated = (case body of c # _ \<Rightarrow> c = CARET | [] \<Rightarrow> False);
          ranges = (if negated then tl body else body)
      in case classAtoms ranges of
           Parsed as \<Rightarrow>
             (case classRanges as of
                Parsed rs \<Rightarrow> Parsed (Chars negated rs)
              | Malformed \<Rightarrow> Malformed
              | Unmodelled \<Rightarrow> Unmodelled)
         | Malformed \<Rightarrow> Malformed
         | Unmodelled \<Rightarrow> Unmodelled)"

definition consTerm :: "rxTerm \<Rightarrow> rxTerm list parsed \<Rightarrow> rxTerm list parsed" where
  "consTerm t r = (case r of Parsed ts \<Rightarrow> Parsed (t # ts) | Malformed \<Rightarrow> Malformed
                   | Unmodelled \<Rightarrow> Unmodelled)"

lemma classBody_shorter:
  "classBody cs acc = Some (body, rest) \<Longrightarrow> length rest < length cs"
  by (induction cs acc rule: classBody.induct) (auto split: if_splits list.splits)

function parsePattern :: "nat list \<Rightarrow> rxTerm list parsed" where
  "parsePattern [] = Parsed []"
| "parsePattern (c # cs) =
     (if c = CARET then consTerm AssertStart (parsePattern cs)
      else if c = DOLLAR then consTerm AssertEnd (parsePattern cs)
      else if c = BACKSLASH then
        (case cs of
           [] \<Rightarrow> Malformed
         | e # es \<Rightarrow>
             if isSyntaxCharacter e \<or> e = SLASH
             then consTerm (Chars False [(e, e)]) (parsePattern es)
             else Unmodelled)
      else if c = LBRACKET then
        (case classBody cs [] of
           None \<Rightarrow> Malformed
         | Some (body, rest) \<Rightarrow>
             (case parseClass body of
                Parsed t \<Rightarrow> consTerm t (parsePattern rest)
              | Malformed \<Rightarrow> Malformed
              | Unmodelled \<Rightarrow> Unmodelled))
      else if isSyntaxCharacter c then Unmodelled
      else consTerm (Chars False [(c, c)]) (parsePattern cs))"
  by pat_completeness auto
termination
  by (relation "measure length") (auto dest: classBody_shorter)

text \<open>
  \<open>new RegExp(source, "u")\<close>: a \<open>SyntaxError\<close> for a malformed pattern, the parsed
  terms for a pattern of the modelled syntax, the host's engine otherwise.
\<close>

definition newRegExp :: "host \<Rightarrow> jsstring \<Rightarrow> error + regexp" where
  "newRegExp h source =
     (case parsePattern (codePoints source) of
        Parsed ts \<Rightarrow> Inr (Terms ts)
      | Malformed \<Rightarrow> Inl SyntaxError
      | Unmodelled \<Rightarrow>
          (case nativeRegExp h source of None \<Rightarrow> Inl SyntaxError | Some p \<Rightarrow> Inr (Native p)))"

definition inRanges :: "(nat \<times> nat) list \<Rightarrow> nat \<Rightarrow> bool" where
  "inRanges rs c = list_ex (\<lambda>(lo, hi). lo \<le> c \<and> c \<le> hi) rs"

text \<open>
  Matching the terms at one position of the input; \<open>atStart\<close> tells whether that
  position is the start of the input. Without the \<open>m\<close> flag \<open>^\<close> holds only there and
  \<open>$\<close> only at the end; without the \<open>i\<close> flag characters are compared as they are.
\<close>

fun matchTerms :: "rxTerm list \<Rightarrow> bool \<Rightarrow> nat list \<Rightarrow> bool" where
  "matchTerms [] atStart input = True"
| "matchTerms (AssertStart # ts) atStart input = (atStart \<and> matchTerms ts atStart input)"
| "matchTerms (AssertEnd # ts) atStart input = (input = [] \<and> matchTerms ts atStart input)"
| "matchTerms (Chars negated rs # ts) atStart [] = False"
| "matchTerms (Chars negated rs # ts) atStart (c # input) =
     ((inRanges rs c \<noteq> negated) \<and> matchTerms ts False input)"

text \<open>\<open>rx.test(w)\<close> tries every position of the input, from the first to its end.\<close>

fun searchFrom :: "rxTerm list \<Rightarrow> bool \<Rightarrow> nat list \<Rightarrow> bool" where
  "searchFrom ts atStart [] = matchTerms ts atStart []"
| "searchFrom ts atStart (c # input) =
     (matchTerms ts atStart (c # input) \<or> searchFrom ts False input)"

fun test :: "regexp \<Rightarrow> jsstring \<Rightarrow> bool" where
  "test (Terms ts) w = searchFrom ts True (codePoints w)"
| "test (Native p) w = p w"

section \<open>templateToRegex\<close>

text \<open>\<open>HEBREW_BLOCK.test(w)\<close>: some code unit of \<open>w\<close> lies in U+0590..U+05FF.\<close>

definition isHebrewBlock :: "jschar \<Rightarrow> bool" where
  "isHebrewBlock c \<longleftrightarrow> 0x0590 \<le> c \<and> c \<le> 0x05FF"

definition HEBREW_BLOCK :: "jsstring \<Rightarrow> bool" where
  "HEBREW_BLOCK w = list_ex isHebrewBlock w"

text \<open>The fifteen characters \<^verbatim>\<open>[\u0590-\u05FF]\<close>.\<close>

definition HEBREW_LETTERS_CLASS :: jsstring where
  "HEBREW_LETTERS_CLASS =
     [0x5B, 0x5C, 0x75, 0x30, 0x35, 0x39, 0x30, 0x2D, 0x5C, 0x75, 0x30, 0x35, 0x46, 0x46, 0x5D]"

text \<open>
  \<^verbatim>\<open>ch.replace(/[.*+?^${}()|[\]\\]/g, "\\$&")\<close>: a backslash before each of the fourteen
  characters of the class.
\<close>

definition isEscaped :: "jschar \<Rightarrow> bool" where
  "isEscaped c \<longleftrightarrow>
     c \<in> {0x2E, 0x2A, 0x2B, 0x3F, 0x5E, 0x24, 0x7B, 0x7D, 0x28, 0x29, 0x7C, 0x5B, 0x5D, 0x5C}"

definition escapeRegex :: "jsstring \<Rightarrow> jsstring" where
  "escapeRegex s = concat (map (\<lambda>c. if isEscaped c then [BACKSLASH, c] else [c]) s)"

text \<open>The loop of \<open>templateToRegex\<close> over the code units of the template.\<close>

fun templateLoop :: "jsstring \<Rightarrow> jsstring \<Rightarrow> bool \<Rightarrow> jsstring" where
  "templateLoop [] out inClass = out"
| "templateLoop (ch # rest) out inClass =
     (if ch = LBRACKET \<and> \<not> inClass then templateLoop rest (out @ [ch]) True
      else if ch = RBRACKET \<and> inClass then templateLoop rest (out @ [ch]) False
      else if inClass then templateLoop rest (out @ [ch]) inClass
      else if ch = QUESTION then templateLoop rest (out @ HEBREW_LETTERS_CLASS) inClass
      else templateLoop rest (out @ escapeRegex [ch]) inClass)"

definition regexSource :: "jsstring \<Rightarrow> bool \<Rightarrow> jsstring" where
  "regexSource template wholeWord =
     (if wholeWord then [CARET] else []) @ templateLoop template [] False
       @ (if wholeWord then [DOLLAR] else [])"

definition templateToRegex :: "host \<Rightarrow> jsstring \<Rightarrow> bool \<Rightarrow> error + regexp" where
  "templateToRegex h template wholeWord = newRegExp h (regexSource template wholeWord)"

section \<open>Batches\<close>

definition BATCH_SIZE :: nat where
  "BATCH_SIZE = 10000"

text \<open>
  The loop over batches, in \<open>loadWordlist\<close> and in \<open>searchInWordlist\<close>:
  \<^verbatim>\<open>for (let i = 0; i < words.length; i += BATCH_SIZE) acc.push(...f(words.slice(i, i + BATCH_SIZE)))\<close>
\<close>

function batches :: "('a list \<Rightarrow> 'b list) \<Rightarrow> 'a list \<Rightarrow> nat \<Rightarrow> 'b list \<Rightarrow> 'b list" where
  "batches f ws i acc =
     (if i < length ws
      then batches f ws (i + BATCH_SIZE) (acc @ f (take BATCH_SIZE (drop i ws)))
      else acc)"
  by pat_completeness auto
termination
  by (relation "measure (\<lambda>(f, ws, i, acc). length ws - i)") (auto simp: BATCH_SIZE_def)

declare batches.simps [simp del]

text \<open>
  \<^verbatim>\<open>xs.push(...ms)\<close> passes every element of \<open>ms\<close> as an argument, and an engine
  throws a \<open>RangeError\<close> when a call has more arguments than it accepts. The batches
  exist to stay below that number (the comment at \<open>BATCH_SIZE\<close>), so it is taken to be
  at least \<open>BATCH_SIZE\<close>: the pushes of one batch, in the loop above, always succeed. The
  pushes of a whole list of matches, in \<open>loadAndSearchWordlists\<close>, are not bounded.
\<close>

definition maxArguments :: "host \<Rightarrow> nat" where
  "maxArguments h = BATCH_SIZE + moreArguments h"

definition pushAll :: "host \<Rightarrow> 'a list \<Rightarrow> 'a list \<Rightarrow> error + 'a list" where
  "pushAll h xs ms = (if maxArguments h < length ms then Inl RangeError else Inr (xs @ ms))"

text \<open>
  The same loop with the batch size as a parameter. It does not end when the size
  is 0 and words remain: not returning is \<open>None\<close>.
\<close>

partial_function (option) batchLoop ::
  "nat \<Rightarrow> ('a list \<Rightarrow> 'b list) \<Rightarrow> 'a list \<Rightarrow> nat \<Rightarrow> 'b list \<Rightarrow> 'b list option" where
  "batchLoop batchSize f ws i acc =
     (if i < length ws
      then batchLoop batchSize f ws (i + batchSize) (acc @ f (take batchSize (drop i ws)))
      else Some acc)"

section \<open>loadWordlist\<close>

definition sources :: "(jsstring \<times> jsstring) list" where
  "sources =
     [(js ''adjectives'', js ''adjectives.txt''),
      (js ''nouns'', js ''nouns.txt''),
      (js ''verbs'', js ''verbs_no_fatverb.txt''),
      (js ''he_IL'', js ''he_IL.dic'')]"

text \<open>
  \<open>sources[sourceKey]\<close>; for a key that the table does not have the value is
  \<open>undefined\<close>, which \<open>fetch\<close> reads as the URL \<open>"undefined"\<close>. A key that names a
  property every object inherits (\<open>constructor\<close>, \<open>toString\<close>) gives that property in
  the source; here it is a key that the table does not have, like any other, and what
  \<open>fetch\<close> answers for its URL is the host's to say.
\<close>

definition sourceUrl :: "jsstring \<Rightarrow> jsstring" where
  "sourceUrl sourceKey =
     (case map_of sources sourceKey of Some url \<Rightarrow> url | None \<Rightarrow> js ''undefined'')"

definition ok :: "nat \<Rightarrow> bool" where
  "ok status \<longleftrightarrow> 200 \<le> status \<and> status \<le> 299"

definition fetchText :: "host \<Rightarrow> jsstring \<Rightarrow> (nat \<Rightarrow> error) \<Rightarrow> error + jsstring" where
  "fetchText h url failed =
     (case fetch h url of
        NetworkFailure \<Rightarrow> Inl FetchRejected
      | Response status body \<Rightarrow> if \<not> ok status then Inl (failed status) else Inr body)"

text \<open>\<^verbatim>\<open>text.split(/\r?\n/)\<close>; the second argument is the line read so far.\<close>

fun splitLines :: "jsstring \<Rightarrow> jsstring \<Rightarrow> jsstring list" where
  "splitLines [] line = [line]"
| "splitLines [c] line = (if c = LF then [line, []] else [line @ [c]])"
| "splitLines (c # d # rest) line =
     (if c = LF then line # splitLines (d # rest) []
      else if c = CR \<and> d = LF then line # splitLines rest []
      else splitLines (d # rest) (line @ [c]))"

text \<open>
  \<^verbatim>\<open>text.split(/\r?\n/).map(s => s.trim()).filter(Boolean)\<close>, then
  \<^verbatim>\<open>.filter(w => !/\s/.test(w) && HEBREW_BLOCK.test(w))\<close>.
\<close>

definition parseWords :: "jsstring \<Rightarrow> jsstring list" where
  "parseWords text =
     filter (\<lambda>w. \<not> list_ex isWhiteSpace w \<and> HEBREW_BLOCK w)
       (filter (\<lambda>s. s \<noteq> []) (map trim (splitLines text [])))"

record searchOpts =
  opts_stripNiqqud :: bool
  opts_unique :: bool
  opts_wholeWord :: bool

text \<open>\<open>x && x.trim().length\<close> for an argument that may be \<open>null\<close>.\<close>

definition nonBlank :: "jsstring option \<Rightarrow> bool" where
  "nonBlank x = (case x of None \<Rightarrow> False | Some s \<Rightarrow> trim s \<noteq> [])"

definition wordlistText ::
  "host \<Rightarrow> jsstring \<Rightarrow> jsstring option \<Rightarrow> jsstring option \<Rightarrow> error + jsstring" where
  "wordlistText h sourceKey customUrl pasted =
     (if sourceKey = js ''custom'' then
        (case (if nonBlank pasted then pasted else None) of
           Some p \<Rightarrow> Inr p
         | None \<Rightarrow>
             (case (if nonBlank customUrl then customUrl else None) of
                Some u \<Rightarrow> fetchText h (trim u) UrlFailed
              | None \<Rightarrow> Inl NoSourceChosen))
      else fetchText h (sourceUrl sourceKey) DefaultSourceFailed)"

definition loadWordlist ::
  "host \<Rightarrow> jsstring \<Rightarrow> jsstring option \<Rightarrow> jsstring option \<Rightarrow> searchOpts
     \<Rightarrow> error + jsstring list" where
  "loadWordlist h sourceKey customUrl pasted opts =
     (case wordlistText h sourceKey customUrl pasted of
        Inl e \<Rightarrow> Inl e
      | Inr text \<Rightarrow>
          (let ws = parseWords text
           in if opts_stripNiqqud opts
              then Inr (batches (map (stripNiqqud h)) ws 0 [])
              else Inr ws))"

section \<open>searchInWordlist\<close>

record letterConstraints =
  lc_selected :: "jsstring list"
  lc_deselected :: "jsstring list"

fun allSelected :: "jsstring \<Rightarrow> jsstring list \<Rightarrow> bool" where
  "allSelected word [] = True"
| "allSelected word (letter # rest) =
     (if \<not> str_includes word letter then False else allSelected word rest)"

fun noneDeselected :: "jsstring \<Rightarrow> jsstring list \<Rightarrow> bool" where
  "noneDeselected word [] = True"
| "noneDeselected word (letter # rest) =
     (if str_includes word letter then False else noneDeselected word rest)"

definition passesLetterConstraints :: "letterConstraints option \<Rightarrow> jsstring \<Rightarrow> bool" where
  "passesLetterConstraints letterConstraints word =
     (case letterConstraints of
        None \<Rightarrow> True
      | Some c \<Rightarrow>
          if \<not> allSelected word (lc_selected c) then False
          else noneDeselected word (lc_deselected c))"

text \<open>
  One \<open>filter\<close> when the list fits in one batch, the loop over batches otherwise. The
  calls of \<open>onProgress\<close> and the pause between two batches change no value and are
  left out.
\<close>

definition searchInWordlist ::
  "host \<Rightarrow> jsstring list \<Rightarrow> jsstring \<Rightarrow> bool \<Rightarrow> letterConstraints option
     \<Rightarrow> error + jsstring list" where
  "searchInWordlist h ws pattern wholeWord letterConstraints =
     (case templateToRegex h pattern wholeWord of
        Inl e \<Rightarrow> Inl e
      | Inr rx \<Rightarrow>
          if length ws \<le> BATCH_SIZE
          then Inr (filter (\<lambda>w. test rx w \<and> passesLetterConstraints letterConstraints w) ws)
          else Inr (batches
                 (filter (\<lambda>w. test rx w \<and> passesLetterConstraints letterConstraints w))
                 ws 0 []))"

text \<open>
  The scan of \<open>searchInWordlist\<close> once the template is compiled, with the batch size
  as a parameter.
\<close>

definition scanWords ::
  "nat \<Rightarrow> regexp \<Rightarrow> letterConstraints option \<Rightarrow> jsstring list \<Rightarrow> jsstring list option" where
  "scanWords batchSize rx letterConstraints ws =
     (if length ws \<le> batchSize
      then Some (filter (\<lambda>w. test rx w \<and> passesLetterConstraints letterConstraints w) ws)
      else batchLoop batchSize
             (filter (\<lambda>w. test rx w \<and> passesLetterConstraints letterConstraints w)) ws 0 [])"

section \<open>loadAndSearchWordlists\<close>

record stats =
  stats_total :: nat
  stats_matched :: nat

record searchResult =
  result_matches :: "jsstring list"
  result_stats :: stats

record customList =
  list_name :: jsstring
  list_words :: "jsstring list"

text \<open>
  The calls of \<open>onSourceStatus\<close>: \<open>(sourceKey, 'success', words.length)\<close> and
  \<open>(sourceKey, 'error', 0, e.message)\<close>; the message is kept as the error it is the
  message of.
\<close>

datatype sourceStatus =
    StatusSuccess jsstring nat
  | StatusError jsstring nat error

text \<open>
  The variables of a run: \<open>allMatches\<close>, \<open>allWordCounts\<close> and the calls of
  \<open>onSourceStatus\<close> made so far. The calls of \<open>onProgress\<close> only set the status line
  and are left out; every \<open>fetch\<close> is taken to answer.
\<close>

record run =
  allMatches :: "jsstring list"
  allWordCounts :: stats
  statusCalls :: "sourceStatus list"

text \<open>The body of the first loop, with its \<open>try\<close> and \<open>catch\<close>, for one source key.\<close>

definition searchSource ::
  "host \<Rightarrow> jsstring \<Rightarrow> searchOpts \<Rightarrow> letterConstraints option \<Rightarrow> jsstring \<Rightarrow> run \<Rightarrow> run" where
  "searchSource h pattern opts letterConstraints sourceKey r =
     (case loadWordlist h sourceKey None None opts of
        Inl e \<Rightarrow> r\<lparr>statusCalls := statusCalls r @ [StatusError sourceKey 0 e]\<rparr>
      | Inr ws \<Rightarrow>
          (let counted = (allWordCounts r)
                 \<lparr>stats_total := stats_total (allWordCounts r) + length ws\<rparr>
           in case searchInWordlist h ws pattern (opts_wholeWord opts) letterConstraints of
                Inl e \<Rightarrow>
                  r\<lparr>allWordCounts := counted,
                    statusCalls := statusCalls r @ [StatusError sourceKey 0 e]\<rparr>
              | Inr ms \<Rightarrow>
                  (case pushAll h (allMatches r) ms of
                     Inl e \<Rightarrow>
                       r\<lparr>allWordCounts := counted,
                         statusCalls := statusCalls r @ [StatusError sourceKey 0 e]\<rparr>
                   | Inr pushed \<Rightarrow>
                       r\<lparr>allMatches := pushed,
                         allWordCounts :=
                           counted\<lparr>stats_matched := stats_matched counted + length ms\<rparr>,
                         statusCalls :=
                           statusCalls r @ [StatusSuccess sourceKey (length ws)]\<rparr>)))"

fun searchSources ::
  "host \<Rightarrow> jsstring \<Rightarrow> searchOpts \<Rightarrow> letterConstraints option \<Rightarrow> jsstring list \<Rightarrow> run \<Rightarrow> run" where
  "searchSources h pattern opts letterConstraints [] r = r"
| "searchSources h pattern opts letterConstraints (sourceKey # rest) r =
     searchSources h pattern opts letterConstraints rest
       (searchSource h pattern opts letterConstraints sourceKey r)"

text \<open>
  The second loop has no \<open>try\<close>: an exception of the search or of the push ends the
  run.
\<close>

fun searchCustomLists ::
  "host \<Rightarrow> jsstring \<Rightarrow> searchOpts \<Rightarrow> letterConstraints option \<Rightarrow> customList list \<Rightarrow> run
     \<Rightarrow> error + run" where
  "searchCustomLists h pattern opts letterConstraints [] r = Inr r"
| "searchCustomLists h pattern opts letterConstraints (customList # rest) r =
     (case searchInWordlist h (list_words customList) pattern (opts_wholeWord opts)
             letterConstraints of
        Inl e \<Rightarrow> Inl e
      | Inr ms \<Rightarrow>
          (case pushAll h (allMatches r) ms of
             Inl e \<Rightarrow> Inl e
           | Inr pushed \<Rightarrow>
               searchCustomLists h pattern opts letterConstraints rest
                 (r\<lparr>allMatches := pushed,
                    allWordCounts :=
                      \<lparr>stats_total =
                         stats_total (allWordCounts r) + length (list_words customList),
                       stats_matched = stats_matched (allWordCounts r) + length ms\<rparr>\<rparr>)))"

text \<open>The loop that removes duplicates, with its set \<open>seen\<close>.\<close>

fun uniqueLoop :: "jsstring list \<Rightarrow> jsstring set \<Rightarrow> jsstring list \<Rightarrow> jsstring list" where
  "uniqueLoop [] seen finalMatches = finalMatches"
| "uniqueLoop (word # rest) seen finalMatches =
     (if word \<notin> seen then uniqueLoop rest (insert word seen) (finalMatches @ [word])
      else uniqueLoop rest seen finalMatches)"

definition removeDuplicates :: "jsstring list \<Rightarrow> jsstring list" where
  "removeDuplicates ms = uniqueLoop ms {} []"

text \<open>
  The end of a run: the duplicates removed and \<open>matched\<close> set anew when \<open>opts.unique\<close>
  is set, and the object that is returned.
\<close>

definition finish :: "searchOpts \<Rightarrow> run \<Rightarrow> searchResult" where
  "finish opts r =
     (if opts_unique opts
      then \<lparr>result_matches = removeDuplicates (allMatches r),
            result_stats = (allWordCounts r)
              \<lparr>stats_matched := length (removeDuplicates (allMatches r))\<rparr>\<rparr>
      else \<lparr>result_matches = allMatches r, result_stats = allWordCounts r\<rparr>)"

text \<open>
  A run gives the calls of \<open>onSourceStatus\<close> it made and either the exception that
  ended it or the object it returns.
\<close>

definition loadAndSearchWordlists ::
  "host \<Rightarrow> jsstring list \<Rightarrow> customList list \<Rightarrow> jsstring \<Rightarrow> searchOpts
     \<Rightarrow> letterConstraints option \<Rightarrow> sourceStatus list \<times> (error + searchResult)" where
  "loadAndSearchWordlists h sourceKeys customWordlists pattern opts letterConstraints =
     (let r = searchSources h pattern opts letterConstraints sourceKeys
                \<lparr>allMatches = [], allWordCounts = \<lparr>stats_total = 0, stats_matched = 0\<rparr>,
                 statusCalls = []\<rparr>
      in case searchCustomLists h pattern opts letterConstraints customWordlists r of
           Inl e \<Rightarrow> (statusCalls r, Inl e)
         | Inr r' \<Rightarrow> (statusCalls r', Inr (finish opts r')))"

section \<open>handleSearch\<close>








section \<open>A host for the examples\<close>

text \<open>
  A host to evaluate the program at concrete inputs. Its network serves two of the
  four built-in lists: \<open>nouns.txt\<close> with the five lines \<open>U+05D0 U+05D1\<close>, \<open>U+05B0\<close>
  (ended by CR LF), \<open>abc\<close>, \<open>U+05D0 U+05D1 U+05D2\<close> after a space, and \<open>U+05D1 U+05D1\<close>,
  and answers 404 for \<open>adjectives.txt\<close>. Its Unicode data are those of the Hebrew letters U+05D0..U+05EA
  (no decomposition, not marks), of the Hebrew points and accents (the marks of the
  block U+0590..U+05FF, no decomposition) and of the ligature U+FB4F, whose
  compatibility decomposition is \<open>U+05D0 U+05DC\<close>; its normalisation is that of
  strings in which no two marks follow each other. Its comparator orders by code
  units, as every collation orders the words \<open>U+05D0 U+05D0\<close> and \<open>U+05D1 U+05D1\<close>. Its
  engine accepts 130000 arguments in a call.
\<close>

definition nounsText :: jsstring where
  "nounsText =
     [0x5D0, 0x5D1, LF, 0x5B0, CR, LF, 0x61, 0x62, 0x63, LF, 0x20, 0x5D0, 0x5D1, 0x5D2, LF,
      0x5D1, 0x5D1]"

definition exampleFetch :: "jsstring \<Rightarrow> response" where
  "exampleFetch url =
     (if url = js ''nouns.txt'' then Response 200 nounsText
      else if url = js ''adjectives.txt'' then Response 404 []
      else NetworkFailure)"

definition hebrewNFKD :: "jsstring \<Rightarrow> jsstring" where
  "hebrewNFKD s = concat (map (\<lambda>c. if c = 0xFB4F then [0x05D0, 0x05DC] else [c]) s)"

definition hebrewMark :: "nat \<Rightarrow> bool" where
  "hebrewMark cp \<longleftrightarrow>
     (0x0591 \<le> cp \<and> cp \<le> 0x05BD) \<or> cp \<in> {0x05BF, 0x05C1, 0x05C2, 0x05C4, 0x05C5, 0x05C7}"

fun codeUnitCompare :: "jsstring \<Rightarrow> jsstring \<Rightarrow> int" where
  "codeUnitCompare [] [] = 0"
| "codeUnitCompare [] (d # b) = - 1"
| "codeUnitCompare (c # a) [] = 1"
| "codeUnitCompare (c # a) (d # b) =
     (if c < d then - 1 else if d < c then 1 else codeUnitCompare a b)"

definition exampleHost :: host where
  "exampleHost =
     \<lparr>fetch = exampleFetch, normalizeNFKD = hebrewNFKD, isMark = hebrewMark,
      localeCompare = codeUnitCompare, nativeRegExp = (\<lambda>source. None),
      moreArguments = 120000\<rparr>"

section \<open>Properties\<close>

subsection \<open>Batches\<close>

lemma batches_eq:
  assumes hom: "\<And>xs ys. f (xs @ ys) = f xs @ f ys"
  shows "batches f ws i acc = acc @ f (drop i ws)"
  using hom
proof (induction f ws i acc rule: batches.induct)
  case (1 f ws i acc)
  note hom = "1.prems"
  have nil: "f [] = []" using hom [of "[]" "[]"] by simp
  show ?case
  proof (cases "i < length ws")
    case True
    have "batches f ws i acc = batches f ws (i + BATCH_SIZE) (acc @ f (take BATCH_SIZE (drop i ws)))"
      using True by (subst batches.simps) simp
    also have "\<dots> = (acc @ f (take BATCH_SIZE (drop i ws))) @ f (drop (i + BATCH_SIZE) ws)"
      using "1.IH" [OF True] "1.prems" by simp
    also have "\<dots> = acc @ f (take BATCH_SIZE (drop i ws) @ drop BATCH_SIZE (drop i ws))"
      by (simp add: hom add.commute)
    finally show ?thesis unfolding append_take_drop_id .
  next
    case False
    then show ?thesis by (subst batches.simps) (simp add: nil)
  qed
qed

lemma batchLoop_eq:
  assumes hom: "\<And>xs ys. f (xs @ ys) = f xs @ f ys" and pos: "0 < n"
  shows "batchLoop n f ws i acc = Some (acc @ f (drop i ws))"
proof (induction "length ws - i" arbitrary: i acc rule: less_induct)
  case less
  have nil: "f [] = []" using hom [of "[]" "[]"] by simp
  show ?case
  proof (cases "i < length ws")
    case True
    then have "length ws - (i + n) < length ws - i" using pos by arith
    then have "batchLoop n f ws (i + n) (acc @ f (take n (drop i ws)))
        = Some ((acc @ f (take n (drop i ws))) @ f (drop (i + n) ws))"
      by (rule less)
    then have "batchLoop n f ws i acc = Some ((acc @ f (take n (drop i ws))) @ f (drop (i + n) ws))"
      using True by (subst batchLoop.simps) simp
    also have "(acc @ f (take n (drop i ws))) @ f (drop (i + n) ws)
        = acc @ f (take n (drop i ws) @ drop n (drop i ws))"
      by (simp add: hom add.commute)
    finally show ?thesis unfolding append_take_drop_id .
  next
    case False
    then show ?thesis by (subst batchLoop.simps) (simp add: nil)
  qed
qed

subsection \<open>Letter constraints\<close>

lemma str_includes_single: "str_includes w [c] = (c \<in> set w)"
  by (induction w) (auto elim: startsWith.elims)

lemma allSelected_iff: "allSelected w ls = (\<forall>l \<in> set ls. str_includes w l)"
  by (induction ls) auto

lemma noneDeselected_iff: "noneDeselected w ls = (\<forall>l \<in> set ls. \<not> str_includes w l)"
  by (induction ls) auto

text \<open>
  C4. Without constraints (\<open>null\<close>) every word passes. With the characters of \<open>R\<close>
  selected and those of \<open>F\<close> deselected, a word passes exactly when every character
  of \<open>R\<close> occurs in it and no character of \<open>F\<close> does. This holds for all \<open>R\<close> and \<open>F\<close>,
  disjoint or not.
\<close>

theorem passes_iff:
  "passesLetterConstraints None w
   \<and> passesLetterConstraints
        (Some \<lparr>lc_selected = map (\<lambda>c. [c]) R, lc_deselected = map (\<lambda>c. [c]) F\<rparr>) w
      = ((\<forall>c \<in> set R. c \<in> set w) \<and> (\<forall>c \<in> set F. c \<notin> set w))"
  by (auto simp: passesLetterConstraints_def allSelected_iff noneDeselected_iff str_includes_single)

theorem passes_iff_witness:
  "passesLetterConstraints
     (Some \<lparr>lc_selected = [[0x5E9]], lc_deselected = [[0x5DC]]\<rparr>) [0x5E9, 0x5DE, 0x5E9]
   \<and> \<not> passesLetterConstraints
     (Some \<lparr>lc_selected = [[0x5E9]], lc_deselected = [[0x5DC]]\<rparr>) [0x5E9, 0x5DC, 0x5D5, 0x5DD]"
  using passes_iff [of "[0x5E9, 0x5DE, 0x5E9]" "[0x5E9]" "[0x5DC]"]
    passes_iff [of "[0x5E9, 0x5DC, 0x5D5, 0x5DD]" "[0x5E9]" "[0x5DC]"]
  by simp

subsection \<open>Duplicates\<close>

lemma uniqueLoop_acc: "uniqueLoop ms seen (acc @ out) = acc @ uniqueLoop ms seen out"
  by (induction ms seen out rule: uniqueLoop.induct) auto

lemma uniqueLoop_append:
  "uniqueLoop (ms @ ns) seen out = uniqueLoop ns (seen \<union> set ms) (uniqueLoop ms seen out)"
  by (induction ms seen out rule: uniqueLoop.induct) (auto simp: insert_absorb)

lemma set_uniqueLoop: "set (uniqueLoop ms seen out) = set out \<union> (set ms - seen)"
  by (induction ms seen out rule: uniqueLoop.induct) auto

lemma distinct_uniqueLoop:
  "distinct out \<Longrightarrow> set out \<subseteq> seen \<Longrightarrow> distinct (uniqueLoop ms seen out)"
  by (induction ms seen out rule: uniqueLoop.induct) auto

lemma uniqueLoop_distinct_id:
  "distinct ms \<Longrightarrow> set ms \<inter> seen = {} \<Longrightarrow> uniqueLoop ms seen out = out @ ms"
  by (induction ms seen out rule: uniqueLoop.induct) auto

lemma removeDuplicates_snoc:
  "removeDuplicates (ms @ [w]) =
     (if w \<in> set ms then removeDuplicates ms else removeDuplicates ms @ [w])"
  by (simp add: removeDuplicates_def uniqueLoop_append)

lemma distinct_removeDuplicates: "distinct (removeDuplicates ms)"
  by (simp add: removeDuplicates_def distinct_uniqueLoop)

lemma set_removeDuplicates: "set (removeDuplicates ms) = set ms"
  by (simp add: removeDuplicates_def set_uniqueLoop)

lemma removeDuplicates_idem: "removeDuplicates (removeDuplicates ms) = removeDuplicates ms"
  using uniqueLoop_distinct_id [of "removeDuplicates ms" "{}" "[]"]
  by (simp add: distinct_removeDuplicates) (simp add: removeDuplicates_def)

subsection \<open>Code points\<close>

lemma codePoints_Cons_plain:
  "\<not> isLeadSurrogate c \<Longrightarrow> codePoints (c # s) = unat c # codePoints s"
  by (cases s) simp_all

lemma codePoints_bmp:
  "(\<forall>cp \<in> set (codePoints w). cp < 0x10000) \<Longrightarrow> codePoints w = map unat w"
  by (induction w rule: codePoints.induct) (auto split: if_splits)

lemma unat_lt_65536: "unat (c :: jschar) < 0x10000"
  using unsigned_less [of c, where ?'a = nat] by simp

lemma set_codePoints_small:
  "cp \<in> set (codePoints w) \<Longrightarrow> cp < 0x10000 \<Longrightarrow> \<exists>c \<in> set w. cp = unat c"
  by (induction w rule: codePoints.induct) (auto split: if_splits)

lemma fromCodePoints_codePoints: "fromCodePoints (codePoints s) = s"
proof (induction s rule: codePoints.induct)
  case 1
  then show ?case by (simp add: fromCodePoints_def)
next
  case (2 c)
  then show ?case by (simp add: fromCodePoints_def utf16_def unat_lt_65536)
next
  case (3 c d s)
  show ?case
  proof (cases "isLeadSurrogate c \<and> isTrailSurrogate d")
    case True
    then have c: "0xD800 \<le> unat c" "unat c \<le> 0xDBFF" and d: "0xDC00 \<le> unat d" "unat d \<le> 0xDFFF"
      by (simp_all add: isLeadSurrogate_def isTrailSurrogate_def word_le_nat_alt)
    define x where "x = unat c - 0xD800"
    define y where "y = unat d - 0xDC00"
    have y: "y < 0x400" using d by (simp add: y_def)
    have m: "(x * 0x400 + y) mod 0x400 = y" "(x * 0x400 + y) div 0x400 = x"
      using y by simp_all
    have hi: "0xD800 + x = unat c" using c by (simp add: x_def)
    have lo: "0xDC00 + y = unat d" using d by (simp add: y_def)
    have "utf16 (0x10000 + x * 0x400 + y) = [of_nat (0xD800 + x), of_nat (0xDC00 + y)]"
      using m by (simp add: utf16_def add.assoc)
    then have "utf16 (0x10000 + (unat c - 0xD800) * 0x400 + (unat d - 0xDC00)) = [c, d]"
      unfolding hi lo by (simp add: x_def y_def)
    moreover have "fromCodePoints (codePoints s) = s"
      using "3.IH"(1) True by blast
    ultimately show ?thesis using True by (simp add: fromCodePoints_def)
  next
    case False
    then have "codePoints (c # d # s) = unat c # codePoints (d # s)" by auto
    moreover have "fromCodePoints (codePoints (d # s)) = d # s"
      using "3.IH"(2) False by blast
    ultimately show ?thesis
      by (simp add: fromCodePoints_def utf16_def unat_lt_65536 del: codePoints.simps)
  qed
qed

subsection \<open>Matching\<close>

lemma searchFrom_AssertStart: "searchFrom (AssertStart # ts) False input = False"
  by (induction input) simp_all

lemma searchFrom_anchored:
  "searchFrom (AssertStart # ts) True input = matchTerms ts True input"
  by (cases input) (simp_all add: searchFrom_AssertStart)

lemma alef_bet_regex:
  "templateToRegex h [0x5D0, QUESTION, 0x5D1] True =
     Inr (Terms [AssertStart, Chars False [(0x5D0, 0x5D0)], Chars False [(0x590, 0x5FF)],
                 Chars False [(0x5D1, 0x5D1)], AssertEnd])"
  by (simp add: templateToRegex_def regexSource_def newRegExp_def HEBREW_LETTERS_CLASS_def
      escapeRegex_def isEscaped_def isLeadSurrogate_def isTrailSurrogate_def
      isSyntaxCharacter_def consTerm_def parseClass_def hex4_def hexValue_def)

lemma match_three:
  "matchTerms [Chars False [(0x5D0, 0x5D0)], Chars False [(0x590, 0x5FF)],
               Chars False [(0x5D1, 0x5D1)], AssertEnd] True cps
   = (\<exists>cp. cps = [0x5D0, cp, 0x5D1] \<and> 0x590 \<le> cp \<and> cp \<le> 0x5FF)"
proof (cases cps)
  case Nil
  then show ?thesis by simp
next
  case (Cons a r1)
  show ?thesis
  proof (cases r1)
    case Nil
    with Cons show ?thesis by simp
  next
    case (Cons b r2)
    note r1 = this
    show ?thesis
    proof (cases r2)
      case Nil
      with r1 \<open>cps = a # r1\<close> show ?thesis by simp
    next
      case (Cons c r3)
      with r1 \<open>cps = a # r1\<close> show ?thesis
        by (cases r3) (auto simp: inRanges_def)
    qed
  qed
qed

lemma codePoints_three:
  "0x590 \<le> cp \<Longrightarrow> cp \<le> 0x5FF \<Longrightarrow>
   (codePoints w = [0x5D0, cp, 0x5D1]) = (\<exists>c. w = [0x5D0, c, 0x5D1] \<and> unat c = cp)"
proof
  assume r: "0x590 \<le> cp" "cp \<le> 0x5FF" and cps: "codePoints w = [0x5D0, cp, 0x5D1]"
  then have "\<forall>x \<in> set (codePoints w). x < 0x10000" by simp
  then have "map unat w = [0x5D0, cp, 0x5D1]" using cps codePoints_bmp by metis
  then obtain a b c where w: "w = [a, b, c]" and u: "unat a = 0x5D0" "unat b = cp" "unat c = 0x5D1"
    by (auto simp: map_eq_Cons_conv)
  from u have "a = 0x5D0" "c = 0x5D1"
    by (simp_all add: word_unat_eq_iff)
  with w u show "\<exists>c. w = [0x5D0, c, 0x5D1] \<and> unat c = cp" by simp
next
  assume r: "0x590 \<le> cp" "cp \<le> 0x5FF" and "\<exists>c. w = [0x5D0, c, 0x5D1] \<and> unat c = cp"
  then obtain c where w: "w = [0x5D0, c, 0x5D1]" and c: "unat c = cp" by blast
  have "\<not> isLeadSurrogate c" using r c by (auto simp: isLeadSurrogate_def word_le_nat_alt)
  moreover have "\<not> isLeadSurrogate (0x5D0 :: jschar)" "\<not> isLeadSurrogate (0x5D1 :: jschar)"
    by (simp_all add: isLeadSurrogate_def)
  ultimately show "codePoints w = [0x5D0, cp, 0x5D1]"
    using w c by (simp add: codePoints_Cons_plain del: codePoints.simps(3))
qed

text \<open>
  C3. On every host the template \<open>U+05D0 ? U+05D1\<close> compiles with \<open>wholeWord\<close>, and
  the matcher accepts a word exactly when the word has three characters, the first
  \<open>U+05D0\<close>, the third \<open>U+05D1\<close> and the second any character of the block
  U+0590..U+05FF; so it rejects every word whose length is not 3.
\<close>

theorem wildcard_alef_bet:
  "\<exists>rx. templateToRegex h [0x5D0, QUESTION, 0x5D1] True = Inr rx
        \<and> (\<forall>w. test rx w = (\<exists>c. w = [0x5D0, c, 0x5D1] \<and> isHebrewBlock c))
        \<and> (\<forall>w. length w \<noteq> 3 \<longrightarrow> \<not> test rx w)"
proof -
  let ?ts = "[Chars False [(0x5D0, 0x5D0)], Chars False [(0x590, 0x5FF)],
              Chars False [(0x5D1, 0x5D1)], AssertEnd]"
  have t: "test (Terms (AssertStart # ?ts)) w = (\<exists>c. w = [0x5D0, c, 0x5D1] \<and> isHebrewBlock c)" for w
  proof -
    have "test (Terms (AssertStart # ?ts)) w
        = (\<exists>cp. codePoints w = [0x5D0, cp, 0x5D1] \<and> 0x590 \<le> cp \<and> cp \<le> 0x5FF)"
      by (simp only: test.simps searchFrom_anchored match_three)
    also have "\<dots> = (\<exists>cp. (\<exists>c. w = [0x5D0, c, 0x5D1] \<and> unat c = cp) \<and> 0x590 \<le> cp \<and> cp \<le> 0x5FF)"
      using codePoints_three by blast
    also have "\<dots> = (\<exists>c. w = [0x5D0, c, 0x5D1] \<and> isHebrewBlock c)"
      by (auto simp: isHebrewBlock_def word_le_nat_alt)
    finally show ?thesis .
  qed
  then have "\<forall>w. length w \<noteq> 3 \<longrightarrow> \<not> test (Terms (AssertStart # ?ts)) w"
    by auto
  with t alef_bet_regex [of h] show ?thesis by simp
qed

theorem wildcard_alef_bet_witness:
  "\<exists>rx. templateToRegex exampleHost [0x5D0, QUESTION, 0x5D1] True = Inr rx
        \<and> test rx [0x5D0, 0x5D4, 0x5D1] \<and> \<not> test rx [0x5D0, 0x61, 0x5D1]
        \<and> \<not> test rx [0x5D0, 0x5D1]"
  using wildcard_alef_bet [of exampleHost] by (auto simp: isHebrewBlock_def)

subsection \<open>The scan of the template\<close>

lemma templateLoop_out: "templateLoop t (acc @ out) b = acc @ templateLoop t out b"
  by (induction t out b arbitrary: acc rule: templateLoop.induct) (simp_all flip: append_assoc)

lemma templateLoop_out0: "templateLoop t out b = out @ templateLoop t [] b"
  using templateLoop_out [of t out "[]" b] by simp

lemma loop_question:
  "templateLoop (QUESTION # t) [] False = HEBREW_LETTERS_CLASS @ templateLoop t [] False"
  using templateLoop_out0 [of t HEBREW_LETTERS_CLASS False] by simp

lemma loop_escaped:
  "isEscaped c \<Longrightarrow> c \<noteq> QUESTION \<Longrightarrow> c \<noteq> LBRACKET \<Longrightarrow>
   templateLoop (c # t) [] False = BACKSLASH # c # templateLoop t [] False"
  using templateLoop_out0 [of t "[BACKSLASH, c]" False] by (simp add: escapeRegex_def)

lemma loop_plain:
  "\<not> isEscaped c \<Longrightarrow> templateLoop (c # t) [] False = c # templateLoop t [] False"
  using templateLoop_out0 [of t "[c]" False] by (auto simp: escapeRegex_def isEscaped_def)

lemma loop_in_class:
  "RBRACKET \<notin> set body \<Longrightarrow> templateLoop body out True = out @ body"
  by (induction body arbitrary: out) auto

lemma loop_open_class:
  "templateLoop (LBRACKET # body) [] False = LBRACKET # templateLoop body [] True"
  using templateLoop_out0 [of body "[LBRACKET]" True] by simp

lemma loop_append:
  "LBRACKET \<notin> set pre \<Longrightarrow>
   templateLoop (pre @ t) out False = templateLoop t (templateLoop pre out False) False"
  by (induction pre arbitrary: out) auto

lemma loop_verbatim:
  "RBRACKET \<notin> set body \<Longrightarrow>
   templateLoop (pre @ LBRACKET # body) out b = templateLoop pre out b @ LBRACKET # body"
  by (induction pre out b rule: templateLoop.induct) (simp_all add: loop_in_class)

lemma loop_close_class:
  "RBRACKET \<notin> set body \<Longrightarrow>
   templateLoop (body @ RBRACKET # t) out True = templateLoop t (out @ body @ [RBRACKET]) False"
  by (induction body arbitrary: out) auto

lemma loop_closed_class:
  assumes "LBRACKET \<notin> set p" and "RBRACKET \<notin> set b"
  shows "templateLoop (p @ LBRACKET # b @ RBRACKET # t) [] False
           = templateLoop p [] False @ LBRACKET # b @ RBRACKET # templateLoop t [] False"
proof -
  have "templateLoop (p @ LBRACKET # b @ RBRACKET # t) [] False
      = templateLoop (LBRACKET # b @ RBRACKET # t) (templateLoop p [] False) False"
    using assms(1) by (rule loop_append)
  also have "\<dots> = templateLoop p [] False @ templateLoop (LBRACKET # b @ RBRACKET # t) [] False"
    by (rule templateLoop_out0)
  also have "templateLoop (LBRACKET # b @ RBRACKET # t) [] False
      = LBRACKET # templateLoop (b @ RBRACKET # t) [] True"
    by (rule loop_open_class)
  also have "templateLoop (b @ RBRACKET # t) [] True = templateLoop t (b @ [RBRACKET]) False"
    using loop_close_class [OF assms(2), of t "[]"] by simp
  also have "\<dots> = (b @ [RBRACKET]) @ templateLoop t [] False"
    by (rule templateLoop_out0)
  finally show ?thesis by simp
qed

lemma loop_closed_classes:
  assumes "\<forall>(p, b) \<in> set segs. LBRACKET \<notin> set p \<and> RBRACKET \<notin> set b"
  shows "templateLoop (concat (map (\<lambda>(p, b). p @ LBRACKET # b @ [RBRACKET]) segs) @ t) [] False
     = concat (map (\<lambda>(p, b). templateLoop p [] False @ LBRACKET # b @ [RBRACKET]) segs)
         @ templateLoop t [] False"
  using assms
proof (induction segs)
  case Nil
  then show ?case by simp
next
  case (Cons s segs)
  obtain p b where s: "s = (p, b)" by (cases s)
  have pb: "LBRACKET \<notin> set p" "RBRACKET \<notin> set b" using Cons.prems s by auto
  have ih: "templateLoop (concat (map (\<lambda>(p, b). p @ LBRACKET # b @ [RBRACKET]) segs) @ t) [] False
     = concat (map (\<lambda>(p, b). templateLoop p [] False @ LBRACKET # b @ [RBRACKET]) segs)
         @ templateLoop t [] False"
    using Cons by simp
  show ?case
    using loop_closed_class [OF pb,
        of "concat (map (\<lambda>(p, b). p @ LBRACKET # b @ [RBRACKET]) segs) @ t"]
    by (simp add: s ih del: templateLoop.simps)
qed

lemma template_shape:
  fixes t :: jsstring
  shows "\<exists>segs post. (\<forall>(p, b) \<in> set segs. LBRACKET \<notin> set p \<and> RBRACKET \<notin> set b)
     \<and> LBRACKET \<notin> set post
     \<and> (t = concat (map (\<lambda>(p, b). p @ LBRACKET # b @ [RBRACKET]) segs) @ post
        \<or> (\<exists>body. RBRACKET \<notin> set body
              \<and> t = concat (map (\<lambda>(p, b). p @ LBRACKET # b @ [RBRACKET]) segs)
                      @ post @ LBRACKET # body))"
proof (induction "length t" arbitrary: t rule: less_induct)
  case less
  let ?p = "takeWhile (\<lambda>c. c \<noteq> LBRACKET) t"
  let ?u = "dropWhile (\<lambda>c. c \<noteq> LBRACKET) t"
  have p: "LBRACKET \<notin> set ?p" by (auto dest: set_takeWhileD)
  have t: "t = ?p @ ?u" by simp
  show ?case
  proof (cases ?u)
    case Nil
    then have "t = ?p" by (metis append_Nil2 takeWhile_dropWhile_id)
    then have "t = concat (map (\<lambda>(p, b). p @ LBRACKET # b @ [RBRACKET]) []) @ ?p"
      by simp
    moreover have "\<forall>(p, b) \<in> set ([] :: (jsstring \<times> jsstring) list).
        LBRACKET \<notin> set p \<and> RBRACKET \<notin> set b"
      by simp
    ultimately show ?thesis using p by blast
  next
    case (Cons c u)
    then have "c = LBRACKET" using hd_dropWhile [of "\<lambda>c. c \<noteq> LBRACKET" t] by force
    then have tu: "t = ?p @ LBRACKET # u" using t Cons by simp
    let ?b = "takeWhile (\<lambda>c. c \<noteq> RBRACKET) u"
    let ?r = "dropWhile (\<lambda>c. c \<noteq> RBRACKET) u"
    have b: "RBRACKET \<notin> set ?b" by (auto dest: set_takeWhileD)
    have u: "u = ?b @ ?r" by simp
    show ?thesis
    proof (cases ?r)
      case Nil
      then have "u = ?b" by (metis append_Nil2 takeWhile_dropWhile_id)
      then have "?p @ LBRACKET # u = ?p @ LBRACKET # ?b" by simp
      then have "t = concat (map (\<lambda>(p, b). p @ LBRACKET # b @ [RBRACKET]) []) @ ?p @ LBRACKET # ?b"
        using tu by simp
      moreover have "\<forall>(p, b) \<in> set ([] :: (jsstring \<times> jsstring) list).
          LBRACKET \<notin> set p \<and> RBRACKET \<notin> set b"
        by simp
      ultimately show ?thesis using p b by blast
    next
      case (Cons d r)
      then have "d = RBRACKET" using hd_dropWhile [of "\<lambda>c. c \<noteq> RBRACKET" u] by force
      then have ur: "u = ?b @ RBRACKET # r" using u Cons by simp
      have "length r < length u" using arg_cong [OF ur, of length] by simp
      moreover have "length u < length t" using arg_cong [OF tu, of length] by simp
      ultimately have "length r < length t" by simp
      then obtain segs post where segs: "\<forall>(p, b) \<in> set segs. LBRACKET \<notin> set p \<and> RBRACKET \<notin> set b"
        and post: "LBRACKET \<notin> set post"
        and r: "r = concat (map (\<lambda>(p, b). p @ LBRACKET # b @ [RBRACKET]) segs) @ post
          \<or> (\<exists>body. RBRACKET \<notin> set body
                \<and> r = concat (map (\<lambda>(p, b). p @ LBRACKET # b @ [RBRACKET]) segs)
                        @ post @ LBRACKET # body)"
        using less [of r] by blast
      have t': "t = ?p @ LBRACKET # ?b @ RBRACKET # r"
        using tu ur by simp
      have segs': "\<forall>(p, b) \<in> set ((?p, ?b) # segs). LBRACKET \<notin> set p \<and> RBRACKET \<notin> set b"
        using segs p b by simp
      have "t = concat (map (\<lambda>(p, b). p @ LBRACKET # b @ [RBRACKET]) ((?p, ?b) # segs)) @ post
          \<or> (\<exists>body. RBRACKET \<notin> set body
                \<and> t = concat (map (\<lambda>(p, b). p @ LBRACKET # b @ [RBRACKET]) ((?p, ?b) # segs))
                        @ post @ LBRACKET # body)"
      proof (rule disjE [OF r])
        assume "r = concat (map (\<lambda>(p, b). p @ LBRACKET # b @ [RBRACKET]) segs) @ post"
        then have "t = concat (map (\<lambda>(p, b). p @ LBRACKET # b @ [RBRACKET]) ((?p, ?b) # segs)) @ post"
          using t' by simp
        then show ?thesis by (rule disjI1)
      next
        assume "\<exists>body. RBRACKET \<notin> set body
                \<and> r = concat (map (\<lambda>(p, b). p @ LBRACKET # b @ [RBRACKET]) segs)
                        @ post @ LBRACKET # body"
        then obtain body where body: "RBRACKET \<notin> set body"
          and "r = concat (map (\<lambda>(p, b). p @ LBRACKET # b @ [RBRACKET]) segs)
                        @ post @ LBRACKET # body"
          by blast
        then have "t = concat (map (\<lambda>(p, b). p @ LBRACKET # b @ [RBRACKET]) ((?p, ?b) # segs))
                        @ post @ LBRACKET # body"
          using t' by simp
        with body show ?thesis by blast
      qed
      with segs' post show ?thesis by blast
    qed
  qed
qed

subsection \<open>Parsing what the scan emits\<close>

lemma foldr_consTerm_Parsed: "foldr consTerm pts (Parsed ts) = Parsed (pts @ ts)"
  by (induction pts) (simp_all add: consTerm_def)

lemma foldr_consTerm_Malformed: "foldr consTerm pts Malformed = Malformed"
  by (induction pts) (simp_all add: consTerm_def)

lemma isSyntaxCharacter_unat: "isSyntaxCharacter (unat c) = isEscaped c"
  unfolding isSyntaxCharacter_def isEscaped_def insert_iff empty_iff word_unat_eq_iff [of c]
  by auto

lemma not_lead_escaped: "isEscaped c \<Longrightarrow> \<not> isLeadSurrogate c"
  by (auto simp: isEscaped_def isLeadSurrogate_def)

lemma parse_hebrew_class:
  "parsePattern (codePoints (HEBREW_LETTERS_CLASS @ s))
     = consTerm (Chars False [(0x590, 0x5FF)]) (parsePattern (codePoints s))"
  by (simp add: HEBREW_LETTERS_CLASS_def codePoints_Cons_plain isLeadSurrogate_def
      parseClass_def hex4_def hexValue_def isSyntaxCharacter_def
      del: codePoints.simps(3))

lemma parse_escaped:
  assumes "isEscaped c"
  shows "parsePattern (codePoints (BACKSLASH # c # s))
     = consTerm (Chars False [(unat c, unat c)]) (parsePattern (codePoints s))"
proof -
  have "\<not> isLeadSurrogate (BACKSLASH :: jschar)" by (simp add: isLeadSurrogate_def)
  then have "codePoints (BACKSLASH # c # s) = BACKSLASH # unat c # codePoints s"
    using not_lead_escaped [OF assms] by (simp add: codePoints_Cons_plain del: codePoints.simps(3))
  then show ?thesis
    using assms by (simp add: isSyntaxCharacter_unat)
qed

lemma parse_plain:
  assumes "\<not> isSyntaxCharacter cp"
  shows "parsePattern (cp # cps) = consTerm (Chars False [(cp, cp)]) (parsePattern cps)"
  using assms by (auto simp: isSyntaxCharacter_def)

lemma pair_not_syntax:
  "\<not> isSyntaxCharacter (0x10000 + (unat (c :: jschar) - 0xD800) * 0x400 + (unat (d :: jschar) - 0xDC00))"
  by (simp add: isSyntaxCharacter_def)

lemma parse_scanned:
  assumes "LBRACKET \<notin> set pre" and "\<And>d r. tail = d # r \<Longrightarrow> \<not> isTrailSurrogate d"
  shows "\<exists>pts. parsePattern (codePoints (templateLoop pre [] False @ tail))
               = foldr consTerm pts (parsePattern (codePoints tail))"
  using assms(1)
proof (induction "length pre" arbitrary: pre rule: less_induct)
  case less
  show ?case
  proof (cases pre)
    case Nil
    have "parsePattern (codePoints tail) = foldr consTerm [] (parsePattern (codePoints tail))"
      by simp
    with Nil show ?thesis by (metis append_Nil templateLoop.simps(1))
  next
    case (Cons c pre')
    then have nb: "c \<noteq> LBRACKET" "LBRACKET \<notin> set pre'" using less.prems by auto
    obtain pts' where ih: "parsePattern (codePoints (templateLoop pre' [] False @ tail))
        = foldr consTerm pts' (parsePattern (codePoints tail))"
      using less.hyps [of pre'] nb(2) Cons by auto
    let ?Z = "templateLoop pre' [] False @ tail"
    show ?thesis
    proof (cases "c = QUESTION")
      case True
      then have "templateLoop pre [] False @ tail = HEBREW_LETTERS_CLASS @ ?Z"
        using Cons by (simp add: loop_question del: templateLoop.simps)
      then have "parsePattern (codePoints (templateLoop pre [] False @ tail))
          = foldr consTerm (Chars False [(0x590, 0x5FF)] # pts') (parsePattern (codePoints tail))"
        using ih by (simp only: parse_hebrew_class foldr_Cons o_apply)
      then show ?thesis by blast
    next
      case q: False
      show ?thesis
      proof (cases "isEscaped c")
        case True
        have "templateLoop pre [] False @ tail = BACKSLASH # c # ?Z"
          using Cons True q nb(1) by (simp add: loop_escaped del: templateLoop.simps)
        then have "parsePattern (codePoints (templateLoop pre [] False @ tail))
            = foldr consTerm (Chars False [(unat c, unat c)] # pts') (parsePattern (codePoints tail))"
          using ih by (simp only: parse_escaped [OF True] foldr_Cons o_apply)
        then show ?thesis by blast
      next
        case plain: False
        have loop: "templateLoop pre [] False @ tail = c # ?Z"
          using Cons plain by (simp add: loop_plain del: templateLoop.simps)
        have ns: "\<not> isSyntaxCharacter (unat c)" using plain by (simp add: isSyntaxCharacter_unat)
        show ?thesis
        proof (cases "\<exists>d Z'. ?Z = d # Z' \<and> isLeadSurrogate c \<and> isTrailSurrogate d")
          case False
          then have "codePoints (c # ?Z) = unat c # codePoints ?Z"
            by (cases ?Z) auto
          then have "parsePattern (codePoints (templateLoop pre [] False @ tail))
              = foldr consTerm (Chars False [(unat c, unat c)] # pts') (parsePattern (codePoints tail))"
            using loop ih by (simp only: parse_plain [OF ns] foldr_Cons o_apply)
          then show ?thesis by blast
        next
          case True
          then obtain d Z' where Z: "?Z = d # Z'" and lc: "isLeadSurrogate c"
            and td: "isTrailSurrogate d" by blast
          have "pre' \<noteq> []"
          proof
            assume "pre' = []"
            then have "tail = d # Z'" using Z by simp
            then show False using assms(2) td by blast
          qed
          then obtain d' rest where pre': "pre' = d' # rest" by (cases pre') auto
          have d': "d' = d \<and> \<not> isEscaped d \<and> Z' = templateLoop rest [] False @ tail"
          proof (cases "d' = QUESTION")
            case True
            then show ?thesis using Z pre' td
              by (simp add: loop_question HEBREW_LETTERS_CLASS_def isTrailSurrogate_def
                  del: templateLoop.simps)
          next
            case dq: False
            show ?thesis
            proof (cases "isEscaped d'")
              case True
              then have "?Z = BACKSLASH # d' # templateLoop rest [] False @ tail"
                using pre' dq nb(2) by (simp add: loop_escaped del: templateLoop.simps)
              then show ?thesis using Z td by (simp add: isTrailSurrogate_def)
            next
              case False
              then have "?Z = d' # templateLoop rest [] False @ tail"
                using pre' by (simp add: loop_plain del: templateLoop.simps)
              then show ?thesis using Z False by simp
            qed
          qed
          obtain pts'' where ih2: "parsePattern (codePoints (templateLoop rest [] False @ tail))
              = foldr consTerm pts'' (parsePattern (codePoints tail))"
            using less.hyps [of rest] nb(2) Cons pre' by auto
          let ?cp = "0x10000 + (unat c - 0xD800) * 0x400 + (unat d - 0xDC00)"
          have "codePoints (c # d # Z') = ?cp # codePoints Z'"
            using lc td by simp
          then have "parsePattern (codePoints (templateLoop pre [] False @ tail))
              = foldr consTerm (Chars False [(?cp, ?cp)] # pts'') (parsePattern (codePoints tail))"
            using loop Z d' ih2
            by (simp only: parse_plain [OF pair_not_syntax] foldr_Cons o_apply)
          then show ?thesis by blast
        qed
      qed
    qed
  qed
qed

lemma classBody_none: "RBRACKET \<notin> set cps \<Longrightarrow> classBody cps acc = None"
  by (induction cps acc rule: classBody.induct) (auto split: list.splits)

lemma rbracket_codePoints:
  assumes "RBRACKET \<in> set (codePoints s)"
  shows "RBRACKET \<in> set s"
proof -
  obtain c where c: "c \<in> set s" "unat c = RBRACKET"
    using set_codePoints_small [OF assms] by auto
  then have "c = RBRACKET" by (simp add: word_unat_eq_iff)
  with c show ?thesis by simp
qed

lemma parse_unterminated:
  assumes "RBRACKET \<notin> set s"
  shows "parsePattern (codePoints (LBRACKET # s)) = Malformed"
proof -
  have "codePoints (LBRACKET # s) = LBRACKET # codePoints s"
    by (simp add: codePoints_Cons_plain isLeadSurrogate_def)
  moreover have "classBody (codePoints s) [] = None"
    using assms rbracket_codePoints classBody_none by blast
  ultimately show ?thesis by simp
qed

lemma parse_caret:
  "parsePattern (codePoints (CARET # s)) = consTerm AssertStart (parsePattern (codePoints s))"
  by (simp add: codePoints_Cons_plain isLeadSurrogate_def del: codePoints.simps(3))

lemma codePoints_rbracket:
  "codePoints (b @ RBRACKET # r) = codePoints b @ RBRACKET # codePoints r"
proof (induction b rule: codePoints.induct)
  case 1
  show ?case by (simp add: codePoints_Cons_plain isLeadSurrogate_def)
next
  case (2 c)
  have "codePoints (RBRACKET # r) = RBRACKET # codePoints r"
    by (simp add: codePoints_Cons_plain isLeadSurrogate_def)
  then show ?case by (simp add: isTrailSurrogate_def)
next
  case (3 c d s)
  then show ?case by simp
qed

lemma backslash_codePoints:
  assumes "BACKSLASH \<in> set (codePoints s)"
  shows "BACKSLASH \<in> set s"
proof -
  obtain c where c: "c \<in> set s" "unat c = BACKSLASH"
    using set_codePoints_small [OF assms] by auto
  then have "c = BACKSLASH" by (simp add: word_unat_eq_iff)
  with c show ?thesis by simp
qed

lemma classBody_plain:
  "RBRACKET \<notin> set xs \<Longrightarrow> BACKSLASH \<notin> set xs \<Longrightarrow>
   classBody (xs @ RBRACKET # ys) acc = Some (acc @ xs, ys)"
  by (induction xs arbitrary: acc) auto

lemma classAtoms_plain:
  "BACKSLASH \<notin> set xs \<Longrightarrow> classAtoms xs = Parsed (map (\<lambda>c. (c, c = DASH)) xs)"
  by (induction xs) auto

lemma classRanges_modelled: "classRanges as \<noteq> Unmodelled"
  by (induction as rule: classRanges.induct) (auto split: parsed.splits)

lemma parseClass_plain:
  assumes "BACKSLASH \<notin> set body"
  shows "parseClass body \<noteq> Unmodelled"
proof -
  have "BACKSLASH \<notin> set (tl body)" using assms by (cases body) auto
  then show ?thesis
    using assms classRanges_modelled
    by (auto simp: parseClass_def Let_def classAtoms_plain split: parsed.splits)
qed

lemma parse_closed_class:
  assumes "RBRACKET \<notin> set b" and "BACKSLASH \<notin> set b"
  shows "parsePattern (codePoints (LBRACKET # b @ RBRACKET # r))
     = (case parseClass (codePoints b) of
          Parsed t \<Rightarrow> consTerm t (parsePattern (codePoints r))
        | Malformed \<Rightarrow> Malformed
        | Unmodelled \<Rightarrow> Unmodelled)"
proof -
  have cp: "codePoints (LBRACKET # b @ RBRACKET # r) = LBRACKET # codePoints b @ RBRACKET # codePoints r"
    by (simp add: codePoints_Cons_plain isLeadSurrogate_def codePoints_rbracket)
  have "RBRACKET \<notin> set (codePoints b)" "BACKSLASH \<notin> set (codePoints b)"
    using assms rbracket_codePoints backslash_codePoints by blast+
  then have "classBody (codePoints b @ RBRACKET # codePoints r) [] = Some (codePoints b, codePoints r)"
    using classBody_plain [of "codePoints b" "codePoints r" "[]"] by simp
  then show ?thesis unfolding cp by simp
qed

lemma parse_closed_classes:
  assumes "\<forall>(p, b) \<in> set segs. LBRACKET \<notin> set p \<and> RBRACKET \<notin> set b \<and> BACKSLASH \<notin> set b"
  shows "\<exists>pts. parsePattern (codePoints
             (concat (map (\<lambda>(p, b). templateLoop p [] False @ LBRACKET # b @ [RBRACKET]) segs)
                @ tail))
     = (if \<exists>(p, b) \<in> set segs. parseClass (codePoints b) = Malformed then Malformed
        else foldr consTerm pts (parsePattern (codePoints tail)))"
  using assms
proof (induction segs)
  case Nil
  have "parsePattern (codePoints tail) = foldr consTerm [] (parsePattern (codePoints tail))"
    by simp
  then show ?case by (metis (no_types, lifting) append_Nil concat.simps(1) empty_iff list.map(1) list.set(1))
next
  case (Cons s segs)
  obtain p b where s: "s = (p, b)" by (cases s)
  have pb: "LBRACKET \<notin> set p" "RBRACKET \<notin> set b" "BACKSLASH \<notin> set b"
    using Cons.prems s by auto
  let ?R = "concat (map (\<lambda>(p, b). templateLoop p [] False @ LBRACKET # b @ [RBRACKET]) segs) @ tail"
  obtain pts' where ih: "parsePattern (codePoints ?R)
     = (if \<exists>(p, b) \<in> set segs. parseClass (codePoints b) = Malformed then Malformed
        else foldr consTerm pts' (parsePattern (codePoints tail)))"
    using Cons by auto
  have "\<And>d r. LBRACKET # b @ RBRACKET # ?R = d # r \<Longrightarrow> \<not> isTrailSurrogate d"
    by (auto simp: isTrailSurrogate_def)
  then obtain pts1 where scan:
    "parsePattern (codePoints (templateLoop p [] False @ LBRACKET # b @ RBRACKET # ?R))
       = foldr consTerm pts1 (parsePattern (codePoints (LBRACKET # b @ RBRACKET # ?R)))"
    using parse_scanned [OF pb(1)] by blast
  have whole: "concat (map (\<lambda>(p, b). templateLoop p [] False @ LBRACKET # b @ [RBRACKET]) (s # segs))
      @ tail = templateLoop p [] False @ LBRACKET # b @ RBRACKET # ?R"
    by (simp add: s)
  note cls = parse_closed_class [OF pb(2,3), of ?R]
  show ?case
  proof (cases "parseClass (codePoints b)")
    case (Parsed t)
    show ?thesis
    proof (cases "\<exists>(p, b) \<in> set segs. parseClass (codePoints b) = Malformed")
      case True
      then have "parsePattern (codePoints (templateLoop p [] False @ LBRACKET # b @ RBRACKET # ?R))
          = Malformed"
        using scan cls Parsed ih by (simp add: consTerm_def foldr_consTerm_Malformed)
      then show ?thesis unfolding whole using True by auto
    next
      case False
      then have eq: "parsePattern (codePoints (templateLoop p [] False @ LBRACKET # b @ RBRACKET # ?R))
          = foldr consTerm (pts1 @ t # pts') (parsePattern (codePoints tail))"
        using scan cls Parsed ih by simp
      have nb: "\<not> (\<exists>(p, b) \<in> set (s # segs). parseClass (codePoints b) = Malformed)"
        using False Parsed s by auto
      show ?thesis unfolding whole
        by (intro exI [of _ "pts1 @ t # pts'"]) (simp only: nb if_False eq)
    qed
  next
    case Malformed
    then have "parsePattern (codePoints (templateLoop p [] False @ LBRACKET # b @ RBRACKET # ?R))
        = Malformed"
      using scan cls by (simp add: foldr_consTerm_Malformed)
    then show ?thesis unfolding whole using Malformed s by auto
  next
    case Unmodelled
    then show ?thesis using parseClass_plain [of "codePoints b"] pb(3) backslash_codePoints by blast
  qed
qed


lemma regexSource_verbatim:
  assumes "RBRACKET \<notin> set body"
  shows "regexSource (pre @ LBRACKET # body) wholeWord
     = (if wholeWord then [CARET] else []) @ templateLoop pre [] False @ LBRACKET # body
         @ (if wholeWord then [DOLLAR] else [])"
  using loop_verbatim [OF assms, of pre "[]" False] by (simp add: regexSource_def)

lemma compile_parse:
  "templateToRegex h t wholeWord =
     (case parsePattern (codePoints
             (templateLoop t [] False @ (if wholeWord then [DOLLAR] else []))) of
        Parsed ts \<Rightarrow> Inr (Terms ((if wholeWord then [AssertStart] else []) @ ts))
      | Malformed \<Rightarrow> Inl SyntaxError
      | Unmodelled \<Rightarrow>
          (case nativeRegExp h (regexSource t wholeWord) of
             None \<Rightarrow> Inl SyntaxError | Some p \<Rightarrow> Inr (Native p)))"
proof (cases wholeWord)
  case True
  then have "regexSource t wholeWord = CARET # (templateLoop t [] False @ [DOLLAR])"
    by (simp add: regexSource_def)
  then have "parsePattern (codePoints (regexSource t wholeWord))
      = consTerm AssertStart (parsePattern (codePoints (templateLoop t [] False @ [DOLLAR])))"
    by (simp only: parse_caret)
  then show ?thesis
    using True by (simp add: templateToRegex_def newRegExp_def consTerm_def split: parsed.splits)
next
  case False
  then show ?thesis
    by (simp add: templateToRegex_def newRegExp_def regexSource_def split: parsed.splits)
qed

lemma parse_suffix:
  "\<exists>ts. parsePattern (codePoints (if wholeWord then [DOLLAR] else [])) = Parsed ts"
  by (simp add: consTerm_def)

lemma suffix_no_trail:
  "(if wholeWord then [DOLLAR] else []) = d # r \<Longrightarrow> \<not> isTrailSurrogate d"
  by (auto simp: isTrailSurrogate_def split: if_splits)

lemma compile_closed:
  assumes segs: "\<forall>(p, b) \<in> set segs.
      LBRACKET \<notin> set p \<and> RBRACKET \<notin> set b \<and> BACKSLASH \<notin> set b"
    and post: "LBRACKET \<notin> set post"
  shows "if \<exists>(p, b) \<in> set segs. parseClass (codePoints b) = Malformed
         then templateToRegex h (concat (map (\<lambda>(p, b). p @ LBRACKET # b @ [RBRACKET]) segs) @ post)
                wholeWord = Inl SyntaxError
         else \<exists>ts. templateToRegex h
                (concat (map (\<lambda>(p, b). p @ LBRACKET # b @ [RBRACKET]) segs) @ post) wholeWord
                = Inr (Terms ts)"
proof -
  let ?suf = "if wholeWord then [DOLLAR] else []"
  let ?tail = "templateLoop post [] False @ ?suf"
  have segs': "\<forall>(p, b) \<in> set segs. LBRACKET \<notin> set p \<and> RBRACKET \<notin> set b"
    using segs by auto
  obtain pts2 where "parsePattern (codePoints ?tail)
      = foldr consTerm pts2 (parsePattern (codePoints ?suf))"
    using parse_scanned [OF post, of ?suf] suffix_no_trail by blast
  then obtain ts2 where tail: "parsePattern (codePoints ?tail) = Parsed ts2"
    using parse_suffix [of wholeWord] by (auto simp: foldr_consTerm_Parsed)
  obtain pts where "parsePattern (codePoints
             (concat (map (\<lambda>(p, b). templateLoop p [] False @ LBRACKET # b @ [RBRACKET]) segs)
                @ ?tail))
     = (if \<exists>(p, b) \<in> set segs. parseClass (codePoints b) = Malformed then Malformed
        else foldr consTerm pts (parsePattern (codePoints ?tail)))"
    using parse_closed_classes [OF segs, of ?tail] by blast
  then have "parsePattern (codePoints
       (templateLoop (concat (map (\<lambda>(p, b). p @ LBRACKET # b @ [RBRACKET]) segs) @ post) [] False
          @ ?suf))
     = (if \<exists>(p, b) \<in> set segs. parseClass (codePoints b) = Malformed then Malformed
        else Parsed (pts @ ts2))"
    by (simp only: loop_closed_classes [OF segs'] tail foldr_consTerm_Parsed append_assoc)
  then show ?thesis
    by (simp add: compile_parse)
qed

lemma compile_open:
  assumes segs: "\<forall>(p, b) \<in> set segs.
      LBRACKET \<notin> set p \<and> RBRACKET \<notin> set b \<and> BACKSLASH \<notin> set b"
    and post: "LBRACKET \<notin> set post" and body: "RBRACKET \<notin> set body"
  shows "templateToRegex h (concat (map (\<lambda>(p, b). p @ LBRACKET # b @ [RBRACKET]) segs)
             @ post @ LBRACKET # body) wholeWord = Inl SyntaxError"
proof -
  let ?suf = "if wholeWord then [DOLLAR] else []"
  let ?open = "LBRACKET # body @ ?suf"
  let ?tail = "templateLoop post [] False @ ?open"
  have segs': "\<forall>(p, b) \<in> set segs. LBRACKET \<notin> set p \<and> RBRACKET \<notin> set b"
    using segs by auto
  have "RBRACKET \<notin> set (body @ ?suf)" using body by simp
  then have opn: "parsePattern (codePoints ?open) = Malformed"
    by (rule parse_unterminated)
  have "\<And>d r. ?open = d # r \<Longrightarrow> \<not> isTrailSurrogate d"
    by (auto simp: isTrailSurrogate_def)
  then obtain pts2 where "parsePattern (codePoints ?tail)
      = foldr consTerm pts2 (parsePattern (codePoints ?open))"
    using parse_scanned [OF post] by blast
  then have tail: "parsePattern (codePoints ?tail) = Malformed"
    by (simp only: opn foldr_consTerm_Malformed)
  obtain pts where "parsePattern (codePoints
             (concat (map (\<lambda>(p, b). templateLoop p [] False @ LBRACKET # b @ [RBRACKET]) segs)
                @ ?tail))
     = (if \<exists>(p, b) \<in> set segs. parseClass (codePoints b) = Malformed then Malformed
        else foldr consTerm pts (parsePattern (codePoints ?tail)))"
    using parse_closed_classes [OF segs, of ?tail] by blast
  then have all: "parsePattern (codePoints
             (concat (map (\<lambda>(p, b). templateLoop p [] False @ LBRACKET # b @ [RBRACKET]) segs)
                @ ?tail)) = Malformed"
    by (simp only: tail foldr_consTerm_Malformed if_cancel)
  have "templateLoop (concat (map (\<lambda>(p, b). p @ LBRACKET # b @ [RBRACKET]) segs)
             @ post @ LBRACKET # body) [] False @ ?suf
      = concat (map (\<lambda>(p, b). templateLoop p [] False @ LBRACKET # b @ [RBRACKET]) segs) @ ?tail"
    by (simp only: loop_closed_classes [OF segs'] loop_verbatim [OF body] append_assoc append_Cons)
  then show ?thesis
    by (simp only: compile_parse all parsed.case)
qed

text \<open>
  C1, as amended. The scan never fails, and the text from a \<open>[\<close> that no \<open>]\<close> follows
  is copied into the pattern text as it stands. Every template is a sequence of
  closed bracket classes, each after a text without \<open>[\<close>, then a text without \<open>[\<close>,
  then possibly one class that is never closed. When no closed class holds a
  backslash, the \<open>RegExp\<close> constructor raises a \<open>SyntaxError\<close>, on every host, if the
  template ends in a class that is never closed or one of the closed classes is
  malformed (a range whose bounds are out of order), and otherwise the template
  compiles, on every host.
\<close>

theorem unterminated_class:
  "(RBRACKET \<notin> set body \<longrightarrow>
      regexSource (pre @ LBRACKET # body) wholeWord
        = (if wholeWord then [CARET] else []) @ templateLoop pre [] False @ LBRACKET # body
            @ (if wholeWord then [DOLLAR] else []))
   \<and> (\<exists>classes rest.
         (\<forall>(p, b) \<in> set classes. LBRACKET \<notin> set p \<and> RBRACKET \<notin> set b)
         \<and> LBRACKET \<notin> set rest
         \<and> ((template :: jsstring)
               = concat (map (\<lambda>(p, b). p @ LBRACKET # b @ [RBRACKET]) classes) @ rest
            \<or> (\<exists>opened. RBRACKET \<notin> set opened
                  \<and> template = concat (map (\<lambda>(p, b). p @ LBRACKET # b @ [RBRACKET]) classes)
                                 @ rest @ LBRACKET # opened)))
   \<and> ((\<forall>(p, b) \<in> set segs. LBRACKET \<notin> set p \<and> RBRACKET \<notin> set b \<and> BACKSLASH \<notin> set b) \<longrightarrow>
       LBRACKET \<notin> set post \<longrightarrow>
         (RBRACKET \<notin> set body \<longrightarrow>
            templateToRegex h (concat (map (\<lambda>(p, b). p @ LBRACKET # b @ [RBRACKET]) segs)
                @ post @ LBRACKET # body) wholeWord = Inl SyntaxError)
         \<and> (if \<exists>(p, b) \<in> set segs. parseClass (codePoints b) = Malformed
            then templateToRegex h
                   (concat (map (\<lambda>(p, b). p @ LBRACKET # b @ [RBRACKET]) segs) @ post) wholeWord
                   = Inl SyntaxError
            else \<exists>ts. templateToRegex h
                   (concat (map (\<lambda>(p, b). p @ LBRACKET # b @ [RBRACKET]) segs) @ post) wholeWord
                   = Inr (Terms ts)))"
  using regexSource_verbatim [of body pre wholeWord] template_shape [of template]
    compile_open [of segs post body h wholeWord] compile_closed [of segs post h wholeWord]
  by blast

theorem unterminated_class_witness:
  "regexSource [LBRACKET, 0x5D0, 0x5D9, RBRACKET, LBRACKET, 0x5D1] True
     = [CARET, LBRACKET, 0x5D0, 0x5D9, RBRACKET, LBRACKET, 0x5D1, DOLLAR]
   \<and> templateToRegex exampleHost [LBRACKET, 0x5D0, 0x5D9, RBRACKET, LBRACKET, 0x5D1] True
       = Inl SyntaxError
   \<and> (\<exists>ts. templateToRegex exampleHost [LBRACKET, 0x5D0, 0x5D9, RBRACKET] True = Inr (Terms ts))
   \<and> templateToRegex exampleHost [LBRACKET, 0x5D1, DASH, 0x5D0, RBRACKET] True = Inl SyntaxError"
  using unterminated_class [of "[0x5D1]" "[LBRACKET, 0x5D0, 0x5D9, RBRACKET]" True
      "[LBRACKET, 0x5D0, 0x5D9, RBRACKET]" "[([], [0x5D0, 0x5D9])]" "[]" exampleHost]
    unterminated_class [of "[0x5D1]" "[]" True "[]" "[([], [0x5D1, DASH, 0x5D0])]" "[]"
      exampleHost]
  by (simp add: parseClass_def isLeadSurrogate_def)

text \<open>
  C1 as stated fails: compiling the template \<open>[\<close> \<open>U+05D0\<close> raises a \<open>SyntaxError\<close>.
\<close>

theorem unterminated_class_raises:
  "templateToRegex exampleHost [LBRACKET, 0x5D0] True = Inl SyntaxError"
  by (simp add: templateToRegex_def regexSource_def newRegExp_def isLeadSurrogate_def
      isTrailSurrogate_def consTerm_def)

subsection \<open>The scan\<close>

lemma searchInWordlist_eq:
  "searchInWordlist h ws pattern wholeWord lc =
     (case templateToRegex h pattern wholeWord of
        Inl e \<Rightarrow> Inl e
      | Inr rx \<Rightarrow> Inr (filter (\<lambda>w. test rx w \<and> passesLetterConstraints lc w) ws))"
  by (simp add: searchInWordlist_def batches_eq split: sum.splits)

lemma scanWords_eq:
  "0 < n \<Longrightarrow>
   scanWords n rx lc ws = Some (filter (\<lambda>w. test rx w \<and> passesLetterConstraints lc w) ws)"
  by (simp add: scanWords_def batchLoop_eq)

text \<open>
  C2. For every word list, compiled matcher and constraint set, the batched scan
  with any batch size \<open>n > 0\<close> returns, and returns the words of the input that the
  matcher and the constraint filter both accept, in the order of the input; so two
  batch sizes give the same sequence. \<open>searchInWordlist\<close>, whose batch size is
  \<open>BATCH_SIZE\<close>, returns that sequence too.
\<close>

theorem chunk_invariance:
  "(0 < n \<longrightarrow> 0 < m \<longrightarrow>
      scanWords n rx lc ws = Some (filter (\<lambda>w. test rx w \<and> passesLetterConstraints lc w) ws)
      \<and> scanWords m rx lc ws = scanWords n rx lc ws)
   \<and> (templateToRegex h pattern wholeWord = Inr rx \<longrightarrow>
        searchInWordlist h ws pattern wholeWord lc
          = Inr (filter (\<lambda>w. test rx w \<and> passesLetterConstraints lc w) ws)
        \<and> scanWords BATCH_SIZE rx lc ws
          = Some (filter (\<lambda>w. test rx w \<and> passesLetterConstraints lc w) ws))"
  by (simp add: scanWords_eq searchInWordlist_eq BATCH_SIZE_def)

lemma ahava_regex:
  "templateToRegex h [0x5D0, 0x5D4, QUESTION, 0x5D4] True =
     Inr (Terms [AssertStart, Chars False [(0x5D0, 0x5D0)], Chars False [(0x5D4, 0x5D4)],
                 Chars False [(0x590, 0x5FF)], Chars False [(0x5D4, 0x5D4)], AssertEnd])"
  by (simp add: templateToRegex_def regexSource_def newRegExp_def HEBREW_LETTERS_CLASS_def
      escapeRegex_def isEscaped_def isLeadSurrogate_def isTrailSurrogate_def
      isSyntaxCharacter_def consTerm_def parseClass_def hex4_def hexValue_def)

theorem chunk_invariance_witness:
  "scanWords 1
     (Terms [AssertStart, Chars False [(0x5D0, 0x5D0)], Chars False [(0x5D4, 0x5D4)],
             Chars False [(0x590, 0x5FF)], Chars False [(0x5D4, 0x5D4)], AssertEnd]) None
     [[0x5D0, 0x5D4, 0x5D1, 0x5D4], [0x5D0, 0x5DB, 0x5D6, 0x5D1, 0x5D4], [0x5D0, 0x5D4, 0x5D5, 0x5D1]]
     = Some [[0x5D0, 0x5D4, 0x5D1, 0x5D4]]
   \<and> scanWords 2
     (Terms [AssertStart, Chars False [(0x5D0, 0x5D0)], Chars False [(0x5D4, 0x5D4)],
             Chars False [(0x590, 0x5FF)], Chars False [(0x5D4, 0x5D4)], AssertEnd]) None
     [[0x5D0, 0x5D4, 0x5D1, 0x5D4], [0x5D0, 0x5DB, 0x5D6, 0x5D1, 0x5D4], [0x5D0, 0x5D4, 0x5D5, 0x5D1]]
     = Some [[0x5D0, 0x5D4, 0x5D1, 0x5D4]]
   \<and> searchInWordlist exampleHost
     [[0x5D0, 0x5D4, 0x5D1, 0x5D4], [0x5D0, 0x5DB, 0x5D6, 0x5D1, 0x5D4], [0x5D0, 0x5D4, 0x5D5, 0x5D1]]
     [0x5D0, 0x5D4, QUESTION, 0x5D4] True None
     = Inr [[0x5D0, 0x5D4, 0x5D1, 0x5D4]]"
  using chunk_invariance [of 1 2
      "Terms [AssertStart, Chars False [(0x5D0, 0x5D0)], Chars False [(0x5D4, 0x5D4)],
              Chars False [(0x590, 0x5FF)], Chars False [(0x5D4, 0x5D4)], AssertEnd]" None
      "[[0x5D0, 0x5D4, 0x5D1, 0x5D4], [0x5D0, 0x5DB, 0x5D6, 0x5D1, 0x5D4], [0x5D0, 0x5D4, 0x5D5, 0x5D1]]"
      exampleHost "[0x5D0, 0x5D4, QUESTION, 0x5D4]" True]
    ahava_regex [of exampleHost]
  by (simp add: passesLetterConstraints_def inRanges_def isLeadSurrogate_def)

subsection \<open>Loading\<close>

lemma loadWordlist_eq:
  "loadWordlist h sourceKey customUrl pasted opts =
     (case wordlistText h sourceKey customUrl pasted of
        Inl e \<Rightarrow> Inl e
      | Inr text \<Rightarrow>
          Inr (if opts_stripNiqqud opts then map (stripNiqqud h) (parseWords text)
               else parseWords text))"
  by (simp add: loadWordlist_def batches_eq Let_def split: sum.splits)

subsection \<open>The loop over the sources\<close>

lemma maxArguments_ge: "BATCH_SIZE \<le> maxArguments h"
  by (simp add: maxArguments_def)

lemma pushAll_small: "length ms \<le> BATCH_SIZE \<Longrightarrow> pushAll h xs ms = Inr (xs @ ms)"
  using maxArguments_ge [of h] by (simp add: pushAll_def)



lemma total_searchSources:
  "stats_total (allWordCounts (searchSources h pattern opts lc sourceKeys r)) =
     stats_total (allWordCounts r) +
     sum_list (map (\<lambda>k. case loadWordlist h k None None opts of
                 Inl e \<Rightarrow> 0 | Inr ws \<Rightarrow> length ws) sourceKeys)"
  by (induction sourceKeys arbitrary: r)
     (auto simp: searchSource_def Let_def split: sum.splits)

lemma matched_searchSources:
  "stats_matched (allWordCounts r) = length (allMatches r) \<Longrightarrow>
   stats_matched (allWordCounts (searchSources h pattern opts lc sourceKeys r))
     = length (allMatches (searchSources h pattern opts lc sourceKeys r))"
  by (induction sourceKeys arbitrary: r)
     (auto simp: searchSource_def Let_def pushAll_def split: sum.splits if_splits)

lemma loadWordlist_unique:
  "loadWordlist h k customUrl pasted (opts\<lparr>opts_unique := b\<rparr>)
     = loadWordlist h k customUrl pasted opts"
  by (simp add: loadWordlist_eq split: sum.splits)

lemma searchSource_unique:
  "searchSource h pattern (opts\<lparr>opts_unique := b\<rparr>) lc k r = searchSource h pattern opts lc k r"
  by (auto simp: searchSource_def loadWordlist_unique Let_def split: sum.splits)

lemma searchSources_unique:
  "searchSources h pattern (opts\<lparr>opts_unique := b\<rparr>) lc sourceKeys r
     = searchSources h pattern opts lc sourceKeys r"
  by (induction sourceKeys arbitrary: r) (simp_all add: searchSource_unique)

subsection \<open>The loop over the custom lists\<close>





lemma searchCustomLists_total:
  "searchCustomLists h pattern opts lc customWordlists r = Inr r' \<Longrightarrow>
   stats_total (allWordCounts r') = stats_total (allWordCounts r)
      + sum_list (map (\<lambda>c. length (list_words c)) customWordlists)"
  by (induction customWordlists arbitrary: r) (auto split: sum.splits)

lemma searchCustomLists_matched:
  "searchCustomLists h pattern opts lc customWordlists r = Inr r' \<Longrightarrow>
   stats_matched (allWordCounts r) = length (allMatches r) \<Longrightarrow>
   stats_matched (allWordCounts r') = length (allMatches r')"
  by (induction customWordlists arbitrary: r)
     (auto simp: pushAll_def split: sum.splits if_splits)

lemma searchCustomLists_unique:
  "searchCustomLists h pattern (opts\<lparr>opts_unique := b\<rparr>) lc customWordlists r
     = searchCustomLists h pattern opts lc customWordlists r"
  by (induction customWordlists arbitrary: r) (simp_all split: sum.splits)

subsection \<open>The run\<close>













text \<open>
  C10. When a run returns, \<open>stats.matched\<close> is the length of the returned matches,
  with and without \<open>unique\<close>, and \<open>stats.total\<close> is the sum of the numbers of words
  of the sources that loaded (a failed load counts 0) and of the lengths of the
  custom lists.
\<close>

theorem stats_consistent:
  "snd (loadAndSearchWordlists h sourceKeys customWordlists pattern opts lc) = Inr res \<longrightarrow>
     stats_matched (result_stats res) = length (result_matches res)
     \<and> stats_total (result_stats res) =
         sum_list (map (\<lambda>k. case loadWordlist h k None None opts of
                               Inl e \<Rightarrow> 0 | Inr ws \<Rightarrow> length ws) sourceKeys)
         + sum_list (map (\<lambda>c. length (list_words c)) customWordlists)"
proof
  let ?r0 = "\<lparr>allMatches = [], allWordCounts = \<lparr>stats_total = 0, stats_matched = 0\<rparr>,
              statusCalls = []\<rparr>"
  let ?r = "searchSources h pattern opts lc sourceKeys ?r0"
  assume "snd (loadAndSearchWordlists h sourceKeys customWordlists pattern opts lc) = Inr res"
  then obtain r' where r': "searchCustomLists h pattern opts lc customWordlists ?r = Inr r'"
    and res: "res = finish opts r'"
    by (auto simp: loadAndSearchWordlists_def Let_def split: sum.splits)
  have "stats_matched (allWordCounts ?r) = length (allMatches ?r)"
    by (rule matched_searchSources) simp
  then have m: "stats_matched (allWordCounts r') = length (allMatches r')"
    using searchCustomLists_matched [OF r'] by simp
  have t: "stats_total (allWordCounts r') =
         sum_list (map (\<lambda>k. case loadWordlist h k None None opts of
                               Inl e \<Rightarrow> 0 | Inr ws \<Rightarrow> length ws) sourceKeys)
         + sum_list (map (\<lambda>c. length (list_words c)) customWordlists)"
    using searchCustomLists_total [OF r'] by (simp add: total_searchSources)
  show "stats_matched (result_stats res) = length (result_matches res)
     \<and> stats_total (result_stats res) =
         sum_list (map (\<lambda>k. case loadWordlist h k None None opts of
                               Inl e \<Rightarrow> 0 | Inr ws \<Rightarrow> length ws) sourceKeys)
         + sum_list (map (\<lambda>c. length (list_words c)) customWordlists)"
    using m t by (simp add: res finish_def)
qed

lemma run_unique:
  assumes "snd (loadAndSearchWordlists h sourceKeys customWordlists pattern
                  (opts\<lparr>opts_unique := False\<rparr>) lc) = Inr res"
  shows "snd (loadAndSearchWordlists h sourceKeys customWordlists pattern
                  (opts\<lparr>opts_unique := True\<rparr>) lc)
     = Inr \<lparr>result_matches = removeDuplicates (result_matches res),
            result_stats = (result_stats res)
              \<lparr>stats_matched := length (removeDuplicates (result_matches res))\<rparr>\<rparr>"
  using assms
  by (auto simp: loadAndSearchWordlists_def Let_def searchSources_unique
      searchCustomLists_unique finish_def split: sum.splits)

text \<open>
  C6. With \<open>unique\<close> set a run returns what it returns without it, the matches with
  duplicates removed and \<open>stats.matched\<close> set to their number. Removing duplicates
  keeps a word exactly when it has not occurred before, in the order of the input:
  the result is distinct and has the words of the input. Removing duplicates twice
  is removing them once.
\<close>

theorem dedupe_first_occurrence:
  "(snd (loadAndSearchWordlists h sourceKeys customWordlists pattern
            (opts\<lparr>opts_unique := False\<rparr>) lc) = Inr res \<longrightarrow>
      snd (loadAndSearchWordlists h sourceKeys customWordlists pattern
            (opts\<lparr>opts_unique := True\<rparr>) lc)
        = Inr \<lparr>result_matches = removeDuplicates (result_matches res),
               result_stats = (result_stats res)
                 \<lparr>stats_matched := length (removeDuplicates (result_matches res))\<rparr>\<rparr>)
   \<and> removeDuplicates [] = []
   \<and> removeDuplicates (ms @ [w]) =
        (if w \<in> set ms then removeDuplicates ms else removeDuplicates ms @ [w])
   \<and> distinct (removeDuplicates ms) \<and> set (removeDuplicates ms) = set ms
   \<and> removeDuplicates (removeDuplicates ms) = removeDuplicates ms"
  using run_unique removeDuplicates_snoc distinct_removeDuplicates set_removeDuplicates
    removeDuplicates_idem
  by (simp add: removeDuplicates_def)

subsection \<open>The program at concrete inputs\<close>

lemma two_letters_regex:
  "templateToRegex h [QUESTION, QUESTION] True =
     Inr (Terms [AssertStart, Chars False [(0x590, 0x5FF)], Chars False [(0x590, 0x5FF)],
                 AssertEnd])"
  by (simp add: templateToRegex_def regexSource_def newRegExp_def HEBREW_LETTERS_CLASS_def
      isLeadSurrogate_def isTrailSurrogate_def isSyntaxCharacter_def consTerm_def
      parseClass_def hex4_def hexValue_def)

lemma parseWords_nounsText:
  "parseWords nounsText = [[0x5D0, 0x5D1], [0x5B0], [0x5D0, 0x5D1, 0x5D2], [0x5D1, 0x5D1]]"
  by (simp add: parseWords_def nounsText_def trim_def isWhiteSpace_def HEBREW_BLOCK_def
      isHebrewBlock_def)

lemma load_adjectives:
  "loadWordlist exampleHost (js ''adjectives'') None None opts = Inl (DefaultSourceFailed 404)"
  by (simp add: loadWordlist_eq wordlistText_def fetchText_def exampleHost_def exampleFetch_def
      sourceUrl_def sources_def js_def ok_def)

lemma load_nouns:
  "loadWordlist exampleHost (js ''nouns'') None None opts =
     Inr (if opts_stripNiqqud opts then map (stripNiqqud exampleHost) (parseWords nounsText)
          else parseWords nounsText)"
  by (simp add: loadWordlist_eq wordlistText_def fetchText_def exampleHost_def exampleFetch_def
      sourceUrl_def sources_def js_def ok_def)

lemma example_run:
  "loadAndSearchWordlists exampleHost [js ''adjectives'', js ''nouns''] [] [QUESTION, QUESTION]
     \<lparr>opts_stripNiqqud = False, opts_unique = False, opts_wholeWord = True\<rparr> None
   = ([StatusError (js ''adjectives'') 0 (DefaultSourceFailed 404),
       StatusSuccess (js ''nouns'') 4],
      Inr \<lparr>result_matches = [[0x5D0, 0x5D1], [0x5D1, 0x5D1]],
           result_stats = \<lparr>stats_total = 4, stats_matched = 2\<rparr>\<rparr>)"
  by (simp add: loadAndSearchWordlists_def searchSource_def load_adjectives load_nouns
      parseWords_nounsText searchInWordlist_eq two_letters_regex inRanges_def
      passesLetterConstraints_def finish_def isLeadSurrogate_def pushAll_small BATCH_SIZE_def)



theorem stats_consistent_witness:
  "snd (loadAndSearchWordlists exampleHost [js ''adjectives'', js ''nouns''] []
          [QUESTION, QUESTION]
          \<lparr>opts_stripNiqqud = False, opts_unique = False, opts_wholeWord = True\<rparr> None)
     = Inr \<lparr>result_matches = [[0x5D0, 0x5D1], [0x5D1, 0x5D1]],
            result_stats = \<lparr>stats_total = 4, stats_matched = 2\<rparr>\<rparr>
   \<and> (2 :: nat) = length [[0x5D0, 0x5D1], [0x5D1, 0x5D1 :: jschar]]
   \<and> (4 :: nat) =
       sum_list (map (\<lambda>k. case loadWordlist exampleHost k None None
                                 \<lparr>opts_stripNiqqud = False, opts_unique = False,
                                  opts_wholeWord = True\<rparr> of
                             Inl e \<Rightarrow> 0 | Inr ws \<Rightarrow> length ws)
                  [js ''adjectives'', js ''nouns''])"
  using stats_consistent [of exampleHost "[js ''adjectives'', js ''nouns'']" "[]"
      "[QUESTION, QUESTION]"
      "\<lparr>opts_stripNiqqud = False, opts_unique = False, opts_wholeWord = True\<rparr>" None
      "\<lparr>result_matches = [[0x5D0, 0x5D1], [0x5D1, 0x5D1]],
        result_stats = \<lparr>stats_total = 4, stats_matched = 2\<rparr>\<rparr>"]
  by (simp add: example_run)

lemma example_custom_run:
  "loadAndSearchWordlists exampleHost []
     [\<lparr>list_name = js ''pasted'',
       list_words = [[0x5D1, 0x5D1], [0x5D0, 0x5D0], [0x5D1, 0x5D1]]\<rparr>]
     [QUESTION, QUESTION]
     \<lparr>opts_stripNiqqud = s, opts_unique = u, opts_wholeWord = True\<rparr> None
   = ([], Inr (if u
        then \<lparr>result_matches = [[0x5D1, 0x5D1], [0x5D0, 0x5D0]],
              result_stats = \<lparr>stats_total = 3, stats_matched = 2\<rparr>\<rparr>
        else \<lparr>result_matches = [[0x5D1, 0x5D1], [0x5D0, 0x5D0], [0x5D1, 0x5D1]],
              result_stats = \<lparr>stats_total = 3, stats_matched = 3\<rparr>\<rparr>))"
  by (simp add: loadAndSearchWordlists_def searchInWordlist_eq two_letters_regex inRanges_def
      passesLetterConstraints_def finish_def isLeadSurrogate_def removeDuplicates_def
      pushAll_small BATCH_SIZE_def)

theorem dedupe_first_occurrence_witness:
  "snd (loadAndSearchWordlists exampleHost []
          [\<lparr>list_name = js ''pasted'',
            list_words = [[0x5D1, 0x5D1], [0x5D0, 0x5D0], [0x5D1, 0x5D1]]\<rparr>]
          [QUESTION, QUESTION]
          \<lparr>opts_stripNiqqud = False, opts_unique = True, opts_wholeWord = True\<rparr> None)
     = Inr \<lparr>result_matches = [[0x5D1, 0x5D1], [0x5D0, 0x5D0]],
            result_stats = \<lparr>stats_total = 3, stats_matched = 2\<rparr>\<rparr>
   \<and> removeDuplicates [[0x5D1, 0x5D1], [0x5D0, 0x5D0], [0x5D1, 0x5D1]]
       = [[0x5D1, 0x5D1], [0x5D0, 0x5D0]]"
  using dedupe_first_occurrence [of exampleHost "[]"
      "[\<lparr>list_name = js ''pasted'',
         list_words = [[0x5D1, 0x5D1], [0x5D0, 0x5D0], [0x5D1, 0x5D1]]\<rparr>]"
      "[QUESTION, QUESTION]"
      "\<lparr>opts_stripNiqqud = False, opts_unique = False, opts_wholeWord = True\<rparr>" None
      "\<lparr>result_matches = [[0x5D1, 0x5D1], [0x5D0, 0x5D0], [0x5D1, 0x5D1]],
        result_stats = \<lparr>stats_total = 3, stats_matched = 3\<rparr>\<rparr>"
      "[[0x5D1, 0x5D1], [0x5D0, 0x5D0]]" "[0x5D1, 0x5D1]"]
  by (simp add: example_custom_run removeDuplicates_def)

subsection \<open>Sorting\<close>







subsection \<open>Strings from code points\<close>

lemma codePoints_bound: "cp \<in> set (codePoints s) \<Longrightarrow> cp < 0x110000"
proof (induction s rule: codePoints.induct)
  case 1
  then show ?case by simp
next
  case (2 c)
  then show ?case using unat_lt_65536 [of c] by simp
next
  case (3 c d s)
  show ?case
  proof (cases "isLeadSurrogate c \<and> isTrailSurrogate d")
    case True
    then have "unat c \<le> 0xDBFF" "unat d \<le> 0xDFFF"
      by (simp_all add: isLeadSurrogate_def isTrailSurrogate_def word_le_nat_alt)
    then have "0x10000 + (unat c - 0xD800) * 0x400 + (unat d - 0xDC00) < (0x110000 :: nat)"
      by simp
    with True 3 show ?thesis by auto
  next
    case False
    then have "codePoints (c # d # s) = unat c # codePoints (d # s)" by auto
    with False 3 show ?thesis using unat_lt_65536 [of c] by auto
  qed
qed

lemma unat_of_nat_small: "n < 0x10000 \<Longrightarrow> unat (of_nat n :: jschar) = n"
  by (simp add: unat_of_nat)

lemma codePoints_utf16:
  assumes "cp < 0x110000" and "cp < 0xD800 \<or> 0xDFFF < cp"
  shows "codePoints (utf16 cp @ s) = cp # codePoints s"
proof (cases "cp < 0x10000")
  case True
  then have u: "unat (of_nat cp :: jschar) = cp" by (rule unat_of_nat_small)
  then have "\<not> isLeadSurrogate (of_nat cp :: jschar)"
    using assms(2) True by (auto simp: isLeadSurrogate_def word_le_nat_alt)
  then show ?thesis using True u by (simp add: utf16_def codePoints_Cons_plain)
next
  case False
  define v where "v = cp - 0x10000"
  have v: "v < 0x100000" "cp = 0x10000 + v" using False assms(1) by (simp_all add: v_def)
  define hi where "hi = 0xD800 + v div 0x400"
  define lo where "lo = 0xDC00 + v mod 0x400"
  have hi: "0xD800 \<le> hi" "hi \<le> 0xDBFF" using v(1) by (simp_all add: hi_def)
  have lo: "0xDC00 \<le> lo" "lo \<le> 0xDFFF" by (simp_all add: lo_def)
  have uh: "unat (of_nat hi :: jschar) = hi" using hi by (intro unat_of_nat_small) simp
  have ul: "unat (of_nat lo :: jschar) = lo" using lo by (intro unat_of_nat_small) simp
  have lead: "isLeadSurrogate (of_nat hi)" using hi uh
    by (simp add: isLeadSurrogate_def word_le_nat_alt)
  have trail: "isTrailSurrogate (of_nat lo)" using lo ul
    by (simp add: isTrailSurrogate_def word_le_nat_alt)
  have "0x10000 + (hi - 0xD800) * 0x400 + (lo - 0xDC00) = cp"
    by (simp add: hi_def lo_def v(2))
  moreover have "utf16 cp = [of_nat hi, of_nat lo]"
    using False by (simp add: utf16_def hi_def lo_def v_def)
  ultimately show ?thesis using lead trail uh ul by simp
qed

lemma codePoints_fromCodePoints:
  "(\<forall>cp \<in> set cps. cp < 0x110000 \<and> (cp < 0xD800 \<or> 0xDFFF < cp)) \<Longrightarrow>
   codePoints (fromCodePoints cps) = cps"
proof (induction cps)
  case Nil
  then show ?case by (simp add: fromCodePoints_def)
next
  case (Cons cp cps)
  then have "codePoints (utf16 cp @ fromCodePoints cps) = cp # codePoints (fromCodePoints cps)"
    by (intro codePoints_utf16) simp_all
  with Cons show ?case by (simp add: fromCodePoints_def)
qed

subsection \<open>stripNiqqud\<close>

lemma stripNiqqud_fixed:
  assumes "normalizeNFKD h w = w" and "\<not> list_ex (isMark h) (codePoints w)"
  shows "stripNiqqud h w = w"
proof -
  have "filter (\<lambda>ch. \<not> isMark h ch) (codePoints w) = codePoints w"
    using assms(2) by (simp add: list_ex_iff)
  then show ?thesis using assms(1) by (simp add: stripNiqqud_def fromCodePoints_codePoints)
qed

lemma stripNiqqud_codePoints:
  assumes "\<forall>cp \<in> set (codePoints (normalizeNFKD h w)). \<not> isMark h cp \<longrightarrow> cp < 0xD800 \<or> 0xDFFF < cp"
  shows "codePoints (stripNiqqud h w)
     = filter (\<lambda>cp. \<not> isMark h cp) (codePoints (normalizeNFKD h w))"
  unfolding stripNiqqud_def
  by (rule codePoints_fromCodePoints) (use assms codePoints_bound in auto)

subsection \<open>Sorted results\<close>




subsection \<open>Normalisation\<close>

text \<open>
  C8, as amended. \<open>stripNiqqud\<close> leaves a word as it is when the word is its own
  NFKD form and has no mark among its code points. The code points of its result
  are those of the NFKD form (the compatibility decomposition, not the canonical
  one) that are no marks, in order, when no lone surrogate is among them.
\<close>

theorem strip_fixed_points:
  "(normalizeNFKD h w = w \<longrightarrow> \<not> list_ex (isMark h) (codePoints w) \<longrightarrow> stripNiqqud h w = w)
   \<and> ((\<forall>cp \<in> set (codePoints (normalizeNFKD h w)).
          \<not> isMark h cp \<longrightarrow> cp < 0xD800 \<or> 0xDFFF < cp) \<longrightarrow>
       codePoints (stripNiqqud h w)
         = filter (\<lambda>cp. \<not> isMark h cp) (codePoints (normalizeNFKD h w)))"
  using stripNiqqud_fixed stripNiqqud_codePoints by blast

theorem strip_fixed_points_witness:
  "stripNiqqud exampleHost [0x5D0, 0x5D1] = [0x5D0, 0x5D1]
   \<and> codePoints (stripNiqqud exampleHost [0x5D0, 0x5B8, 0x5D1]) = [0x5D0, 0x5D1]"
  using strip_fixed_points [of exampleHost "[0x5D0, 0x5D1]"]
    strip_fixed_points [of exampleHost "[0x5D0, 0x5B8, 0x5D1]"]
  by (simp add: exampleHost_def hebrewNFKD_def hebrewMark_def isLeadSurrogate_def)

text \<open>
  C8 as stated fails: the pasted line \<open>U+05D0 U+FB4F\<close> holds a character of the
  Hebrew block, so \<open>loadWordlist\<close> keeps it as a word; the word has no mark among its
  code points, and with \<open>stripNiqqud\<close> set the loader returns it as
  \<open>U+05D0 U+05D0 U+05DC\<close>: the ligature is replaced by its compatibility
  decomposition.
\<close>

theorem strip_changes_ligature:
  "\<not> list_ex (isMark exampleHost) (codePoints [0x5D0, 0xFB4F])
   \<and> loadWordlist exampleHost (js ''custom'') None (Some [0x5D0, 0xFB4F])
        \<lparr>opts_stripNiqqud = False, opts_unique = False, opts_wholeWord = True\<rparr>
       = Inr [[0x5D0, 0xFB4F]]
   \<and> loadWordlist exampleHost (js ''custom'') None (Some [0x5D0, 0xFB4F])
        \<lparr>opts_stripNiqqud = True, opts_unique = False, opts_wholeWord = True\<rparr>
       = Inr [[0x5D0, 0x5D0, 0x5DC]]
   \<and> stripNiqqud exampleHost [0x5D0, 0xFB4F] = [0x5D0, 0x5D0, 0x5DC]"
  by (simp add: loadWordlist_eq wordlistText_def nonBlank_def parseWords_def trim_def
      isWhiteSpace_def HEBREW_BLOCK_def isHebrewBlock_def
      stripNiqqud_def exampleHost_def hebrewNFKD_def hebrewMark_def
      fromCodePoints_def utf16_def isLeadSurrogate_def)

subsection \<open>Loaded words\<close>

lemma parseWords_valid:
  "w \<in> set (parseWords text) \<Longrightarrow> w \<noteq> [] \<and> \<not> list_ex isWhiteSpace w \<and> HEBREW_BLOCK w"
  by (simp add: parseWords_def)

lemma loaded_plain:
  assumes "loadWordlist h sourceKey customUrl pasted opts = Inr ws" and "\<not> opts_stripNiqqud opts"
    and "w \<in> set ws"
  shows "w \<noteq> [] \<and> \<not> list_ex isWhiteSpace w \<and> HEBREW_BLOCK w"
  using assms by (auto simp: loadWordlist_eq dest: parseWords_valid split: sum.splits)

lemma loaded_stripped:
  assumes "loadWordlist h sourceKey customUrl pasted opts = Inr ws" and "opts_stripNiqqud opts"
    and "w \<in> set ws"
  shows "\<exists>v. w = stripNiqqud h v \<and> v \<noteq> [] \<and> \<not> list_ex isWhiteSpace v \<and> HEBREW_BLOCK v"
proof -
  from assms obtain t v where "v \<in> set (parseWords t)" "w = stripNiqqud h v"
    by (auto simp: loadWordlist_eq split: sum.splits)
  then show ?thesis using parseWords_valid by blast
qed

lemma load_error_iff:
  "(loadWordlist h sourceKey customUrl pasted opts = Inl e)
      = (wordlistText h sourceKey customUrl pasted = Inl e)"
  by (auto simp: loadWordlist_eq split: sum.splits)

text \<open>
  C9, as amended. Without \<open>stripNiqqud\<close> every word that \<open>loadWordlist\<close> returns is
  non-empty, has no whitespace and has a character of the block U+0590..U+05FF. With
  \<open>stripNiqqud\<close> every returned word is \<open>stripNiqqud\<close> of such a word. A line is never
  reported as an error: \<open>loadWordlist\<close> fails exactly when obtaining the text fails.
\<close>

theorem loaded_words:
  "(loadWordlist h sourceKey customUrl pasted opts = Inr ws \<longrightarrow>
      (\<not> opts_stripNiqqud opts \<longrightarrow>
         (\<forall>w \<in> set ws. w \<noteq> [] \<and> \<not> list_ex isWhiteSpace w \<and> HEBREW_BLOCK w))
      \<and> (opts_stripNiqqud opts \<longrightarrow>
         (\<forall>w \<in> set ws. \<exists>v. w = stripNiqqud h v
              \<and> v \<noteq> [] \<and> \<not> list_ex isWhiteSpace v \<and> HEBREW_BLOCK v)))
   \<and> (\<forall>e. loadWordlist h sourceKey customUrl pasted opts = Inl e
          \<longleftrightarrow> wordlistText h sourceKey customUrl pasted = Inl e)"
  using loaded_plain [of h sourceKey customUrl pasted opts ws]
    loaded_stripped [of h sourceKey customUrl pasted opts ws]
    load_error_iff [of h sourceKey customUrl pasted opts]
  by blast

theorem loaded_words_witness:
  "loadWordlist exampleHost (js ''nouns'') None None
     \<lparr>opts_stripNiqqud = False, opts_unique = False, opts_wholeWord = True\<rparr>
     = Inr [[0x5D0, 0x5D1], [0x5B0], [0x5D0, 0x5D1, 0x5D2], [0x5D1, 0x5D1]]
   \<and> \<not> list_ex isWhiteSpace [0x5D0, 0x5D1, 0x5D2] \<and> HEBREW_BLOCK [0x5D0, 0x5D1, 0x5D2]"
  using loaded_words [of exampleHost "js ''nouns''" None None
      "\<lparr>opts_stripNiqqud = False, opts_unique = False, opts_wholeWord = True\<rparr>"
      "[[0x5D0, 0x5D1], [0x5B0], [0x5D0, 0x5D1, 0x5D2], [0x5D1, 0x5D1]]"]
  by (simp add: load_nouns parseWords_nounsText)

lemma strip_example_words:
  "map (stripNiqqud exampleHost) [[0x5D0, 0x5D1], [0x5B0], [0x5D0, 0x5D1, 0x5D2], [0x5D1, 0x5D1]]
     = [[0x5D0, 0x5D1], [], [0x5D0, 0x5D1, 0x5D2], [0x5D1, 0x5D1]]"
  by (simp add: stripNiqqud_def exampleHost_def hebrewNFKD_def hebrewMark_def
      fromCodePoints_def utf16_def isLeadSurrogate_def)

text \<open>
  C9 as stated fails: with \<open>stripNiqqud\<close> set, the line \<open>U+05B0\<close> of \<open>nouns.txt\<close> is
  returned as the empty word.
\<close>

theorem stripped_word_empty:
  "loadWordlist exampleHost (js ''nouns'') None None
     \<lparr>opts_stripNiqqud = True, opts_unique = True, opts_wholeWord = True\<rparr>
     = Inr [[0x5D0, 0x5D1], [], [0x5D0, 0x5D1, 0x5D2], [0x5D1, 0x5D1]]"
  by (simp only: load_nouns parseWords_nounsText strip_example_words searchOpts.simps if_True)

end
